theory Spec2Isabelle
  imports Main
begin

section \<open>Python values and strings\<close>

text \<open>
  The pipeline reads and writes JSON. A JSON value is modelled by \<open>jval\<close>; a JSON object
  nested inside a value is a list of key/value pairs. Booleans and floating-point numbers
  do not occur in the fields the stages inspect and are left out.
  A startup record (a Python \<open>dict\<close> with string keys) is a map from field names to values.

  Text is modelled over the code points below 256 (\<open>char\<close>): \<open>str.lower\<close>,
  \<open>str.strip\<close> and the regular-expression class for whitespace are the restrictions of
  Python's Unicode versions to that range.
\<close>

datatype jval =
    JNull
  | JNum int
  | JStr string
  | JArr "jval list"
  | JObj "(string \<times> jval) list"

type_synonym startup = "string \<rightharpoonup> jval"

datatype error = KeyError | TypeError

text \<open>\<open>d.get(k)\<close>: the value, \<open>None\<close> when the key is absent.\<close>

definition dict_get :: "startup \<Rightarrow> string \<Rightarrow> jval" where
  "dict_get d k = (case d k of None \<Rightarrow> JNull | Some v \<Rightarrow> v)"

text \<open>Python truthiness of a JSON value.\<close>

fun truthy :: "jval \<Rightarrow> bool" where
  "truthy JNull = False"
| "truthy (JNum n) = (n \<noteq> 0)"
| "truthy (JStr s) = (s \<noteq> [])"
| "truthy (JArr xs) = (xs \<noteq> [])"
| "truthy (JObj kvs) = (kvs \<noteq> [])"

text \<open>\<open>str.isspace\<close> on one character; also the class \<open>\s\<close> of \<open>re\<close>.\<close>

definition is_space :: "char \<Rightarrow> bool" where
  "is_space c =
     (let n = (of_char c :: nat)
      in (9 \<le> n \<and> n \<le> 13) \<or> (28 \<le> n \<and> n \<le> 32) \<or> n = 133 \<or> n = 160)"

definition lower_char :: "char \<Rightarrow> char" where
  "lower_char c =
     (let n = (of_char c :: nat)
      in if (65 \<le> n \<and> n \<le> 90) \<or> (192 \<le> n \<and> n \<le> 222 \<and> n \<noteq> 215)
         then char_of (n + 32) else c)"

definition lower :: "string \<Rightarrow> string" where
  "lower s = map lower_char s"

definition strip :: "string \<Rightarrow> string" where
  "strip s = rev (dropWhile is_space (rev (dropWhile is_space s)))"

definition startswith :: "string \<Rightarrow> string \<Rightarrow> bool" where
  "startswith s p = (take (length p) s = p)"

text \<open>\<open>kw in s\<close> on strings: \<open>kw\<close> occurs in \<open>s\<close> as a contiguous substring.\<close>

fun str_in :: "string \<Rightarrow> string \<Rightarrow> bool" where
  "str_in kw [] = (kw = [])"
| "str_in kw (c # cs) = (startswith (c # cs) kw \<or> str_in kw cs)"

text \<open>\<open>sep.join(xs)\<close>.\<close>

fun join :: "string \<Rightarrow> string list \<Rightarrow> string" where
  "join sep [] = []"
| "join sep [x] = x"
| "join sep (x # y # ys) = x @ sep @ join sep (y # ys)"

section \<open>fill\_summaries\_locally.py: LocalEnricher\<close>

definition category_keywords :: "(string \<times> string list) list" where
  "category_keywords =
    [(''Healthcare & Biotech'', [''health'', ''medical'', ''patient'', ''diagnostic'', ''clinic'', ''hospital'', ''pharma'', ''biotech'']),
     (''Fintech & Banking'', [''finance'', ''bank'', ''payment'', ''fintech'', ''loan'', ''credit'', ''wealth'', ''insurtech'', ''invest'']),
     (''Education & EdTech'', [''education'', ''learning'', ''student'', ''school'', ''training'', ''edtech'', ''course'', ''skill'', ''university'', ''academy'']),
     (''Agriculture & AgriTech'', [''farm'', ''agri'', ''crop'', ''harvest'', ''soil'', ''cattle'', ''dairy'', ''livestock'']),
     (''Cybersecurity'', [''security'', ''cyber'', ''protection'', ''threat'', ''firewall'', ''auth'', ''defense'', ''secure'']),
     (''E-commerce & Retail'', [''retail'', ''ecommerce'', ''shop'', ''store'', ''buy'', ''sell'', ''marketplace'', ''consumer'']),
     (''Robotics & Automation'', [''robot'', ''drone'', ''automation'', ''autonomous'', ''unmanned'']),
     (''Logistics & Supply Chain'', [''logistics'', ''supply chain'', ''transport'', ''delivery'', ''fleet'', ''warehouse'']),
     (''Real Estate & PropTech'', [''real estate'', ''property'', ''housing'', ''construction'', ''building'']),
     (''HR & Workforce Management'', [''hr'', ''recruitment'', ''hiring'', ''talent'', ''employee'', ''workforce'']),
     (''Marketing & Sales Tech'', [''marketing'', ''sales'', ''adtech'', ''brand'', ''customer'', ''crm'']),
     (''Climate & Sustainability'', [''climate'', ''sustainable'', ''carbon'', ''energy'', ''solar'', ''waste'', ''water'', ''green'']),
     (''AI/ML Infrastructure & Tools'', [''ai'', ''machine learning'', ''ml'', ''data'', ''analytics'', ''cloud'', ''software'', ''platform'', ''algorithm'', ''model''])]"

subsection \<open>clean\_text\<close>

text \<open>\<open>re.sub(r'\s+', ' ', text)\<close>: every maximal run of whitespace becomes one space.\<close>

function collapse_ws :: "string \<Rightarrow> string" where
  "collapse_ws [] = []"
| "collapse_ws (c # cs) =
     (if is_space c then CHR '' '' # collapse_ws (dropWhile is_space cs)
      else c # collapse_ws cs)"
  by pat_completeness auto
termination
  by (relation "measure length") (auto simp: length_dropWhile_le less_Suc_eq_le)

definition is_sep :: "char \<Rightarrow> bool" where
  "is_sep c = (is_space c \<or> c = CHR ''-'' \<or> c = CHR '':'')"

text \<open>
  \<open>re.sub(r'^(About Us|Our Story|Welcome to|Who We Are)[\s\-\:]+', '', text, flags=re.IGNORECASE)\<close>:
  the alternatives are tried in order at the start of the text; the one that matches
  must be followed by at least one separator, and the whole run of separators goes with it.
\<close>

fun sub_about_prefix :: "string list \<Rightarrow> string \<Rightarrow> string" where
  "sub_about_prefix [] t = t"
| "sub_about_prefix (p # ps) t =
     (let rest = drop (length p) t
      in if lower (take (length p) t) = lower p \<and> takeWhile is_sep rest \<noteq> []
         then dropWhile is_sep rest
         else sub_about_prefix ps t)"

definition clean_text :: "string option \<Rightarrow> string" where
  "clean_text text =
     (case text of
        None \<Rightarrow> []
      | Some t \<Rightarrow>
          if t = [] then []
          else sub_about_prefix [''About Us'', ''Our Story'', ''Welcome to'', ''Who We Are'']
                 (strip (collapse_ws t)))"

subsection \<open>extract\_summary\<close>

definition sentence_end :: "string \<Rightarrow> bool" where
  "sentence_end cur = (cur \<noteq> [] \<and> last cur \<in> set ''.!?'')"

text \<open>
  \<open>re.split(r'(?<=[.!?])\s+', text)\<close>: the text is cut at every run of whitespace
  that follows one of \<open>.\<close>, \<open>!\<close>, \<open>?\<close>; the run is dropped, the punctuation stays.
  \<open>cur\<close> is the piece read so far.
\<close>

function re_split :: "string \<Rightarrow> string \<Rightarrow> string list" where
  "re_split cur [] = [cur]"
| "re_split cur (c # cs) =
     (if is_space c \<and> sentence_end cur then cur # re_split [] (dropWhile is_space cs)
      else re_split (cur @ [c]) cs)"
  by pat_completeness auto
termination
  by (relation "measure (\<lambda>(cur, s). length s)") (auto simp: length_dropWhile_le less_Suc_eq_le)

definition boilerplate :: "string \<Rightarrow> bool" where
  "boilerplate sent =
     (length sent < 5 \<or> str_in ''cookie'' (lower sent) \<or> str_in ''copyright'' (lower sent))"

text \<open>
  The \<open>for sent in sentences\<close> loop: \<open>acc\<close> is \<open>summary_sentences\<close>, \<open>n\<close> is
  \<open>char_count\<close>. The only \<open>break\<close> is on \<open>char_count > 350\<close>.
\<close>

fun collect :: "string list \<Rightarrow> string list \<Rightarrow> nat \<Rightarrow> string list" where
  "collect [] acc n = acc"
| "collect (sent # sents) acc n =
     (if boilerplate sent then collect sents acc n
      else if n + length sent > 350 then acc @ [sent]
      else collect sents (acc @ [sent]) (n + length sent))"

definition extract_summary :: "string option \<Rightarrow> string option" where
  "extract_summary text =
     (case text of
        None \<Rightarrow> None
      | Some t \<Rightarrow>
          if t = [] \<or> length t < 20 then None
          else
            (let summary_sentences = collect (re_split [] t) [] 0
             in if summary_sentences = [] then None
                else
                  (let summary = join '' '' summary_sentences
                   in Some (if length summary > 400 then take 400 summary @ ''...''
                            else summary))))"

subsection \<open>categorize\_by\_keywords\<close>

text \<open>\<open>sum(1 for kw in keywords if kw in text_lower)\<close>.\<close>

definition score :: "string list \<Rightarrow> string \<Rightarrow> nat" where
  "score keywords text_lower = length (filter (\<lambda>kw. str_in kw text_lower) keywords)"

text \<open>
  The dict \<open>scores\<close>, in insertion order: the categories with a positive score, in the
  order of \<open>category_keywords\<close>.
\<close>

definition scores :: "(string \<times> string list) list \<Rightarrow> string \<Rightarrow> (string \<times> nat) list" where
  "scores table text_lower =
     filter (\<lambda>(cat, sc). sc > 0) (map (\<lambda>(cat, keywords). (cat, score keywords text_lower)) table)"

text \<open>
  \<open>max(scores, key=scores.get)\<close>: Python's \<open>max\<close> keeps the first element and replaces
  it only by a strictly larger one.
\<close>

fun max_from :: "(string \<times> nat) \<Rightarrow> (string \<times> nat) list \<Rightarrow> string" where
  "max_from best [] = fst best"
| "max_from best (x # xs) = (if snd x > snd best then max_from x xs else max_from best xs)"

definition categorize_with :: "(string \<times> string list) list \<Rightarrow> string option \<Rightarrow> string" where
  "categorize_with table text =
     (case text of
        None \<Rightarrow> ''Other''
      | Some t \<Rightarrow>
          if t = [] then ''Other''
          else (case scores table (lower t) of
                  [] \<Rightarrow> ''Other''
                | x # xs \<Rightarrow> max_from x xs))"

definition categorize_by_keywords :: "string option \<Rightarrow> string" where
  "categorize_by_keywords text = categorize_with category_keywords text"

subsection \<open>run\<close>

definition needs_summary_local :: "startup \<Rightarrow> bool" where
  "needs_summary_local startup =
     (dict_get startup ''summary'' \<in>
        set [JStr ''Failed to process with AI'', JStr ''No information available'', JNull])"

definition needs_category_local :: "startup \<Rightarrow> bool" where
  "needs_category_local startup =
     (dict_get startup ''category'' \<in> set [JStr ''Error'', JStr ''No Data''])"

text \<open>
  \<open>about_map.get(name, '')\<close>. The map is built by \<open>load_data\<close> from the about-pages file:
  its keys are the names found there (strings), its values the page text or \<open>None\<close>
  (JSON null). A list or an object as \<open>name\<close> cannot be hashed; any other value that is
  not a string is not a key of the map.
\<close>

definition about_get :: "(string \<rightharpoonup> string option) \<Rightarrow> jval \<Rightarrow> error + string option" where
  "about_get about_map name =
     (case name of
        JStr n \<Rightarrow> Inr (case about_map n of None \<Rightarrow> Some [] | Some content \<Rightarrow> content)
      | JArr xs \<Rightarrow> Inl TypeError
      | JObj kvs \<Rightarrow> Inl TypeError
      | _ \<Rightarrow> Inr (Some []))"

text \<open>\<open>new_cat.split('&')[0].strip()\<close>.\<close>

definition category_tag :: "string \<Rightarrow> string" where
  "category_tag new_cat = strip (takeWhile (\<lambda>c. c \<noteq> CHR ''&'') new_cat)"

text \<open>
  The body of the \<open>for startup in self.results\<close> loop of \<open>LocalEnricher.run\<close>; the
  dict is updated in place, the model returns the updated dict.
\<close>

definition fill_summary :: "string \<Rightarrow> startup \<Rightarrow> startup" where
  "fill_summary cleaned_content startup =
     (case extract_summary (Some cleaned_content) of
        Some extracted \<Rightarrow>
          if extracted \<noteq> []
          then startup(''summary'' \<mapsto> JStr extracted, ''confidence'' \<mapsto> JStr ''Low (Extracted)'')
          else startup(''summary'' \<mapsto> JStr ''Information not available.'')
      | None \<Rightarrow> startup(''summary'' \<mapsto> JStr ''Information not available.''))"

definition fill_category :: "string \<Rightarrow> startup \<Rightarrow> startup" where
  "fill_category cleaned_content startup =
     (if cleaned_content \<noteq> [] then
        (let new_cat = categorize_by_keywords (Some cleaned_content);
             startup1 = startup(''category'' \<mapsto> JStr new_cat)
         in if \<not> truthy (dict_get startup1 ''tags'')
            then startup1(''tags'' \<mapsto> JArr [JStr (category_tag new_cat)])
            else startup1)
      else startup(''category'' \<mapsto> JStr ''Uncategorized''))"

definition local_enrich_startup ::
  "(string \<rightharpoonup> string option) \<Rightarrow> startup \<Rightarrow> error + startup" where
  "local_enrich_startup about_map startup =
     (let needs_summary = needs_summary_local startup;
          needs_category = needs_category_local startup
      in if needs_summary \<or> needs_category then
           (case startup ''name'' of
              None \<Rightarrow> Inl KeyError
            | Some name \<Rightarrow>
                (case about_get about_map name of
                   Inl e \<Rightarrow> Inl e
                 | Inr about_content \<Rightarrow>
                     (let cleaned_content = clean_text about_content;
                          startup1 = (if needs_summary then fill_summary cleaned_content startup
                                      else startup);
                          startup2 = (if needs_category then fill_category cleaned_content startup1
                                      else startup1)
                      in Inr startup2)))
         else Inr startup)"

text \<open>
  \<open>LocalEnricher.run\<close> after a successful \<open>load_data\<close>: the result is the list handed to
  \<open>save_results\<close>; an exception in the loop leaves the output file unwritten.
\<close>

fun local_run :: "(string \<rightharpoonup> string option) \<Rightarrow> startup list \<Rightarrow> error + startup list" where
  "local_run about_map [] = Inr []"
| "local_run about_map (startup # rest) =
     (case local_enrich_startup about_map startup of
        Inl e \<Rightarrow> Inl e
      | Inr startup' \<Rightarrow>
          (case local_run about_map rest of
             Inl e \<Rightarrow> Inl e
           | Inr rest' \<Rightarrow> Inr (startup' # rest')))"

text \<open>The column of one field in the list a run saves (empty when the run raised).\<close>

definition saved_field :: "error + startup list \<Rightarrow> string \<Rightarrow> jval option list" where
  "saved_field out f = (case out of Inl e \<Rightarrow> [] | Inr rs \<Rightarrow> map (\<lambda>r. r f) rs)"

section \<open>enhance\_missing\_data.py: StartupEnhancer\<close>

text \<open>
  The external collaborators of the stage. \<open>ask_summary name content\<close> stands for
  building the prompt from the startup name and \<open>about_content[:1800]\<close> and calling the
  text-generation service: \<open>Inl\<close> is an exception, \<open>Inr\<close> the text of the response
  (\<open>None\<close> when the response carries no text). \<open>search_linkedin\<close> catches its own
  exceptions and returns a URL or \<open>None\<close>.
\<close>

record enhancer_env =
  ask_summary :: "jval \<Rightarrow> string \<Rightarrow> string + string option"
  search_linkedin :: "jval \<Rightarrow> jval \<Rightarrow> string option"
  about_content_map :: "string \<rightharpoonup> string option"

definition generate_summary_with_ai :: "enhancer_env \<Rightarrow> jval \<Rightarrow> string option \<Rightarrow> string option" where
  "generate_summary_with_ai env startup_name about_content =
     (case about_content of
        None \<Rightarrow> None
      | Some content \<Rightarrow>
          if content = [] \<or> length content < 50 then None
          else (case ask_summary env startup_name (take 1800 content) of
                  Inl exn \<Rightarrow> None
                | Inr None \<Rightarrow> None
                | Inr (Some response_text) \<Rightarrow> Some (strip response_text)))"

text \<open>
  The per-field tests that \<open>needs_enhancement\<close> and \<open>enhance_startup\<close> spell out inline:
  the values of \<open>category\<close>, \<open>summary\<close> and \<open>linkedin_url\<close> that count as missing.
\<close>

definition category_missing :: "jval \<Rightarrow> bool" where
  "category_missing v = (v \<in> set [JStr ''Error'', JStr ''No Data''])"

definition summary_missing :: "jval \<Rightarrow> bool" where
  "summary_missing v =
     (v \<in> set [JStr ''No information available'', JStr ''Failed to process with AI'',
               JStr ''No information available for this startup.'', JNull])"

definition linkedin_missing :: "jval \<Rightarrow> bool" where
  "linkedin_missing v = (\<not> truthy v)"

definition needs_summary :: "startup \<Rightarrow> bool" where
  "needs_summary startup =
     (dict_get startup ''category'' \<in> set [JStr ''Error'', JStr ''No Data''] \<or>
      dict_get startup ''summary'' \<in>
        set [JStr ''No information available'', JStr ''Failed to process with AI'',
             JStr ''No information available for this startup.'', JNull])"

definition needs_enhancement :: "startup \<Rightarrow> bool" where
  "needs_enhancement startup =
     (needs_summary startup \<or> \<not> truthy (dict_get startup ''linkedin_url''))"

definition enhance_summary :: "enhancer_env \<Rightarrow> jval \<Rightarrow> startup \<Rightarrow> error + startup" where
  "enhance_summary env name enhanced =
     (case about_get (about_content_map env) name of
        Inl e \<Rightarrow> Inl e
      | Inr about_content \<Rightarrow>
          if about_content \<noteq> None \<and> about_content \<noteq> Some [] then
            (case generate_summary_with_ai env name about_content of
               Some summary \<Rightarrow>
                 if summary \<noteq> []
                 then Inr (enhanced(''summary'' \<mapsto> JStr summary, ''confidence'' \<mapsto> JStr ''Medium''))
                 else Inr enhanced
             | None \<Rightarrow> Inr enhanced)
          else Inr enhanced)"

definition enhance_linkedin :: "enhancer_env \<Rightarrow> jval \<Rightarrow> startup \<Rightarrow> startup \<Rightarrow> startup" where
  "enhance_linkedin env name startup enhanced =
     (case search_linkedin env name (dict_get startup ''website'') of
        Some linkedin_url \<Rightarrow>
          if linkedin_url \<noteq> [] then enhanced(''linkedin_url'' \<mapsto> JStr linkedin_url)
          else enhanced(''linkedin_url'' \<mapsto> JNull)
      | None \<Rightarrow> enhanced(''linkedin_url'' \<mapsto> JNull))"

definition enhance_startup :: "enhancer_env \<Rightarrow> startup \<Rightarrow> error + startup" where
  "enhance_startup env startup =
     (case startup ''name'' of
        None \<Rightarrow> Inl KeyError
      | Some name \<Rightarrow>
          (case (if needs_summary startup then enhance_summary env name startup else Inr startup) of
             Inl e \<Rightarrow> Inl e
           | Inr enhanced \<Rightarrow>
               if \<not> truthy (dict_get startup ''linkedin_url'')
               then Inr (enhance_linkedin env name startup enhanced)
               else Inr enhanced))"

text \<open>One field of the record a call returns (\<open>None\<close> also when the call raised).\<close>

definition result_field :: "error + startup \<Rightarrow> string \<Rightarrow> jval option" where
  "result_field out f = (case out of Inl e \<Rightarrow> None | Inr r \<Rightarrow> r f)"

section \<open>The resumable loop of the stage runners\<close>

text \<open>
  \<open>fetch_about_pages.py\<close>, \<open>categorize_startups.py\<close> and \<open>enrich_startups.py\<close> share the
  shape of \<open>run(limit, start_index)\<close>: the work list is cut to a window only
  \<open>if limit:\<close>, the prior output's \<open>results\<close> array is loaded (empty when the file does
  not exist), and every item not yet named there is processed, appended and saved.
\<close>

text \<open>\<open>xs[i:j]\<close> with Python's clamping and negative indices.\<close>

definition py_slice :: "'a list \<Rightarrow> int \<Rightarrow> int \<Rightarrow> 'a list" where
  "py_slice xs i j =
     (let n = int (length xs);
          a = (if i < 0 then max 0 (i + n) else min i n);
          b = (if j < 0 then max 0 (j + n) else min j n)
      in take (nat (b - a)) (drop (nat a) xs))"

text \<open>
  \<open>if limit: startups = startups[start_index:start_index + limit]\<close>; \<open>limit\<close> is
  \<open>None\<close> for the argument \<open>all\<close>.
\<close>

definition limit_window :: "'a list \<Rightarrow> int option \<Rightarrow> int \<Rightarrow> 'a list" where
  "limit_window startups limit start_index =
     (case limit of
        None \<Rightarrow> startups
      | Some l \<Rightarrow> if l \<noteq> 0 then py_slice startups start_index (start_index + l) else startups)"

text \<open>
  What a run leaves behind: the exception that ended it, if any; the \<open>results\<close> array of
  the output file (it is saved after every append); and the items handed to the
  stage's producer, in order.
\<close>

record 'i outcome =
  raised :: "error option"
  results :: "startup list"
  calls :: "'i list"

text \<open>
  \<open>any(r['name'] == key(item) for r in self.results)\<close>: the generator reads
  \<open>r['name']\<close>, then the item's key, for one record after the other.
\<close>

fun already :: "('i \<Rightarrow> error + jval) \<Rightarrow> 'i \<Rightarrow> startup list \<Rightarrow> error + bool" where
  "already key item [] = Inr False"
| "already key item (r # rs) =
     (case r ''name'' of
        None \<Rightarrow> Inl KeyError
      | Some rn \<Rightarrow>
          (case key item of
             Inl e \<Rightarrow> Inl e
           | Inr n \<Rightarrow> if rn = n then Inr True else already key item rs))"

fun resume_loop ::
  "('i \<Rightarrow> error + jval) \<Rightarrow> ('i \<Rightarrow> error + startup) \<Rightarrow> 'i list \<Rightarrow> startup list \<Rightarrow> 'i list \<Rightarrow> 'i outcome" where
  "resume_loop key process [] res cs = \<lparr>raised = None, results = res, calls = cs\<rparr>"
| "resume_loop key process (item # items) res cs =
     (case already key item res of
        Inl e \<Rightarrow> \<lparr>raised = Some e, results = res, calls = cs\<rparr>
      | Inr skip \<Rightarrow>
          if skip then resume_loop key process items res cs
          else (case process item of
                  Inl e \<Rightarrow> \<lparr>raised = Some e, results = res, calls = cs @ [item]\<rparr>
                | Inr result \<Rightarrow> resume_loop key process items (res @ [result]) (cs @ [item])))"

text \<open>The \<open>name\<close> entries of the records of a \<open>results\<close> array, in order.\<close>

definition stored_names :: "startup list \<Rightarrow> jval option list" where
  "stored_names res = map (\<lambda>r. r ''name'') res"

section \<open>fetch\_about\_pages.py: StartupAboutFetcher\<close>

text \<open>
  The three web helpers catch their own exceptions and return a string or \<open>None\<close>.
\<close>

record fetcher_web =
  search_company_website :: "string \<Rightarrow> string option"
  find_about_page_url :: "string \<Rightarrow> string option"
  fetch_page_content :: "string \<Rightarrow> string option"

definition fetcher_process_startup :: "fetcher_web \<Rightarrow> string \<Rightarrow> startup" where
  "fetcher_process_startup web company_name =
     (let result = [''name'' \<mapsto> JStr company_name, ''website'' \<mapsto> JNull,
                    ''about_page_url'' \<mapsto> JNull, ''about_content'' \<mapsto> JNull,
                    ''status'' \<mapsto> JStr ''pending''];
          not_found = result(''status'' \<mapsto> JStr ''website_not_found'')
      in case search_company_website web company_name of
           None \<Rightarrow> not_found
         | Some website \<Rightarrow>
             if website = [] then not_found
             else
               (let result1 = result(''website'' \<mapsto> JStr website);
                    about_url = (case find_about_page_url web website of
                                   None \<Rightarrow> website
                                 | Some url \<Rightarrow> if url = [] then website else url);
                    result2 = result1(''about_page_url'' \<mapsto> JStr about_url);
                    failed = result2(''status'' \<mapsto> JStr ''content_fetch_failed'')
                in case fetch_page_content web about_url of
                     None \<Rightarrow> failed
                   | Some content \<Rightarrow>
                       if content = [] then failed
                       else result2(''about_content'' \<mapsto> JStr content,
                                    ''status'' \<mapsto> JStr ''success'')))"

definition fetcher_run ::
  "fetcher_web \<Rightarrow> string list \<Rightarrow> startup list \<Rightarrow> int option \<Rightarrow> int \<Rightarrow> string outcome" where
  "fetcher_run web startups prior limit start_index =
     resume_loop (\<lambda>startup. Inr (JStr startup)) (\<lambda>startup. Inr (fetcher_process_startup web startup))
       (limit_window startups limit start_index) prior []"

section \<open>The text-generation service\<close>

text \<open>
  \<open>ask name content\<close> stands for building the stage's prompt from the startup name and
  the about text and calling \<open>client.models.generate_content\<close>: \<open>Inl\<close> carries the
  message of the exception raised, \<open>Inr\<close> the text of the response (\<open>None\<close> when it has
  none). \<open>json_loads\<close> is \<open>json.loads\<close>: \<open>Inl\<close> is the message of its decode error.
\<close>

record ai_service =
  ask :: "jval \<Rightarrow> jval \<Rightarrow> string + string option"
  json_loads :: "string \<Rightarrow> string + jval"

text \<open>\<open>s.split(d)\<close> for a one-character separator.\<close>

fun split_on :: "char \<Rightarrow> string \<Rightarrow> string \<Rightarrow> string list" where
  "split_on d cur [] = [cur]"
| "split_on d cur (c # cs) = (if c = d then cur # split_on d [] cs else split_on d (cur @ [c]) cs)"

section \<open>categorize\_startups.py: StartupCategorizer\<close>

definition categorizer_strip_fence :: "string \<Rightarrow> string" where
  "categorizer_strip_fence response_text =
     (if startswith response_text ''```''
      then strip (join ''\<newline>''
             (filter (\<lambda>line. \<not> startswith line ''```'') (split_on CHR ''\<newline>'' [] response_text)))
      else response_text)"

definition categorization :: "string \<Rightarrow> string \<Rightarrow> jval" where
  "categorization primary_category explanation =
     JObj [(''primary_category'', JStr primary_category), (''explanation'', JStr explanation),
           (''key_offerings'', JArr []), (''confidence'', JStr ''Low'')]"

definition categorize_startup :: "ai_service \<Rightarrow> jval \<Rightarrow> startup \<Rightarrow> jval" where
  "categorize_startup svc startup_name startup_data =
     (let about_content = (case startup_data ''about_content'' of None \<Rightarrow> JStr [] | Some v \<Rightarrow> v)
      in if \<not> truthy about_content
         then categorization ''Unknown'' ''No content available for analysis''
         else
           (case ask svc startup_name about_content of
              Inl msg \<Rightarrow> categorization ''Error'' (''Failed to categorize: '' @ msg)
            | Inr None \<Rightarrow>
                categorization ''Error''
                  (''Failed to categorize: '' @ [CHR 0x27] @ ''NoneType'' @ [CHR 0x27] @
                   '' object has no attribute '' @ [CHR 0x27] @ ''strip'' @ [CHR 0x27])
            | Inr (Some response_text) \<Rightarrow>
                (case json_loads svc (categorizer_strip_fence (strip response_text)) of
                   Inl msg \<Rightarrow> categorization ''Error'' (''Failed to categorize: '' @ msg)
                 | Inr parsed \<Rightarrow> parsed)))"

definition categorizer_process_startup :: "ai_service \<Rightarrow> startup \<Rightarrow> error + startup" where
  "categorizer_process_startup svc startup_data =
     (case startup_data ''name'' of
        None \<Rightarrow> Inl KeyError
      | Some name \<Rightarrow>
          if dict_get startup_data ''status'' \<noteq> JStr ''success''
          then Inr (startup_data(''categorization'' \<mapsto>
                      categorization ''No Data'' ''Website or content not available''))
          else Inr (startup_data(''categorization'' \<mapsto> categorize_startup svc name startup_data)))"

definition item_name :: "startup \<Rightarrow> error + jval" where
  "item_name startup = (case startup ''name'' of None \<Rightarrow> Inl KeyError | Some n \<Rightarrow> Inr n)"

definition categorizer_run ::
  "ai_service \<Rightarrow> startup list \<Rightarrow> startup list \<Rightarrow> int option \<Rightarrow> int \<Rightarrow> startup outcome" where
  "categorizer_run svc startups prior limit start_index =
     resume_loop item_name (categorizer_process_startup svc)
       (limit_window startups limit start_index) prior []"

section \<open>enrich\_startups.py: StartupEnricher\<close>

definition categories :: "string list" where
  "categories =
     [''AI/ML Infrastructure & Tools'', ''Healthcare & Biotech'', ''Fintech & Banking'',
      ''Education & EdTech'', ''Agriculture & AgriTech'', ''Cybersecurity'',
      ''E-commerce & Retail'', ''Manufacturing & Industry 4.0'', ''Media & Entertainment'',
      ''Climate & Sustainability'', ''Logistics & Supply Chain'', ''Legal & Compliance'',
      ''HR & Workforce Management'', ''Marketing & Sales Tech'', ''Robotics & Automation'',
      ''IoT & Smart Devices'', ''Data Analytics & Business Intelligence'',
      ''Government & Public Sector'', ''Real Estate & PropTech'', ''Other'']"

text \<open>
  The values the data model allows in \<open>category\<close>: a label of the taxonomy above or one
  of the four sentinels.
\<close>

definition taxonomy_or_sentinel :: "string \<Rightarrow> bool" where
  "taxonomy_or_sentinel c =
     (c \<in> set categories \<or> c \<in> set [''No Data'', ''Error'', ''Unknown'', ''Other''])"

definition no_data_result :: jval where
  "no_data_result =
     JObj [(''category'', JStr ''No Data''),
           (''summary'', JStr ''No information available for this startup.''),
           (''key_offerings'', JArr []), (''confidence'', JStr ''Low''), (''tags'', JArr [])]"

definition error_result :: jval where
  "error_result =
     JObj [(''category'', JStr ''Error''), (''summary'', JStr ''Failed to process with AI''),
           (''key_offerings'', JArr []), (''confidence'', JStr ''Low''), (''tags'', JArr [])]"

definition enricher_strip_fence :: "string \<Rightarrow> string" where
  "enricher_strip_fence response_text =
     (if startswith response_text ''```''
      then strip (join ''\<newline>''
             (filter (\<lambda>line. \<not> startswith line ''```'' \<and> \<not> str_in ''json'' (lower line))
                (split_on CHR ''\<newline>'' [] response_text)))
      else response_text)"

text \<open>
  The second component counts the requests handed to the service (\<open>ask\<close>).
\<close>

definition enrich_with_ai :: "ai_service \<Rightarrow> jval \<Rightarrow> jval \<Rightarrow> jval \<times> nat" where
  "enrich_with_ai svc startup_name about_content =
     (if \<not> truthy about_content then (no_data_result, 0)
      else
        (case ask svc startup_name about_content of
           Inl msg \<Rightarrow> (error_result, 1)
         | Inr None \<Rightarrow> (error_result, 1)
         | Inr (Some response_text) \<Rightarrow>
             (case json_loads svc (enricher_strip_fence (strip response_text)) of
                Inl msg \<Rightarrow> (error_result, 1)
              | Inr enrichment \<Rightarrow> (enrichment, 1))))"

text \<open>\<open>ai_data[k]\<close> on whatever JSON value the service returned.\<close>

definition obj_item :: "jval \<Rightarrow> string \<Rightarrow> error + jval" where
  "obj_item v k =
     (case v of
        JObj kvs \<Rightarrow> (case map_of kvs k of None \<Rightarrow> Inl KeyError | Some x \<Rightarrow> Inr x)
      | _ \<Rightarrow> Inl TypeError)"

text \<open>\<open>v[:80]\<close> raises unless \<open>v\<close> is a string or a list.\<close>

definition sliceable :: "jval \<Rightarrow> bool" where
  "sliceable v = (case v of JStr s \<Rightarrow> True | JArr xs \<Rightarrow> True | _ \<Rightarrow> False)"

definition get_default :: "startup \<Rightarrow> string \<Rightarrow> jval \<Rightarrow> jval" where
  "get_default d k dflt = (case d k of None \<Rightarrow> dflt | Some v \<Rightarrow> v)"

text \<open>
  \<open>startup_data\<close> is the dict built by \<open>load_data\<close>, in insertion order; \<open>hall_data\<close> is
  the JSON object of the hall file (its keys are strings).
\<close>

record enricher_env =
  svc :: ai_service
  startup_data :: "(jval \<times> startup) list"
  hall_data :: "string \<rightharpoonup> startup"

definition hall_get :: "(string \<rightharpoonup> startup) \<Rightarrow> jval \<Rightarrow> startup" where
  "hall_get halls name =
     (case name of
        JStr n \<Rightarrow> (case halls n of None \<Rightarrow> Map.empty | Some info \<Rightarrow> info)
      | _ \<Rightarrow> Map.empty)"

definition enrich_startup :: "enricher_env \<Rightarrow> jval \<Rightarrow> error + startup" where
  "enrich_startup env name =
     (let startup_info = (case map_of (startup_data env) name of None \<Rightarrow> Map.empty | Some i \<Rightarrow> i);
          about_content = get_default startup_info ''about_content'' (JStr []);
          hall_info = hall_get (hall_data env) name
      in if dict_get startup_info ''status'' \<noteq> JStr ''success'' then
           Inr [''name'' \<mapsto> name,
                ''hall'' \<mapsto> get_default hall_info ''hall'' (JStr ''Unknown''),
                ''space_sqm'' \<mapsto> get_default hall_info ''space_sqm'' (JStr ''Unknown''),
                ''website'' \<mapsto> dict_get startup_info ''website'',
                ''category'' \<mapsto> JStr ''No Data'',
                ''summary'' \<mapsto> JStr ''No information available'',
                ''key_offerings'' \<mapsto> JArr [],
                ''confidence'' \<mapsto> JStr ''Low'',
                ''tags'' \<mapsto> JArr []]
         else
           (let ai_data = fst (enrich_with_ai (svc env) name about_content)
            in case obj_item ai_data ''category'' of Inl e \<Rightarrow> Inl e | Inr category \<Rightarrow>
               (case obj_item ai_data ''confidence'' of Inl e \<Rightarrow> Inl e | Inr confidence \<Rightarrow>
               (case obj_item ai_data ''summary'' of Inl e \<Rightarrow> Inl e | Inr summary \<Rightarrow>
               if \<not> sliceable summary then Inl TypeError else
               (case obj_item ai_data ''key_offerings'' of Inl e \<Rightarrow> Inl e | Inr key_offerings \<Rightarrow>
               (case obj_item ai_data ''tags'' of Inl e \<Rightarrow> Inl e | Inr tags \<Rightarrow>
                  Inr [''name'' \<mapsto> name,
                       ''hall'' \<mapsto> get_default hall_info ''hall'' (JStr ''Unknown''),
                       ''space_sqm'' \<mapsto> get_default hall_info ''space_sqm'' (JStr ''Unknown''),
                       ''website'' \<mapsto> dict_get startup_info ''website'',
                       ''about_page_url'' \<mapsto> dict_get startup_info ''about_page_url'',
                       ''logo_url'' \<mapsto> dict_get hall_info ''logo_url'',
                       ''category'' \<mapsto> category,
                       ''summary'' \<mapsto> summary,
                       ''key_offerings'' \<mapsto> key_offerings,
                       ''tags'' \<mapsto> tags,
                       ''confidence'' \<mapsto> confidence]))))))"

text \<open>\<open>d[k] = v\<close> on a dict kept in insertion order.\<close>

fun dict_set :: "('k \<times> 'v) list \<Rightarrow> 'k \<Rightarrow> 'v \<Rightarrow> ('k \<times> 'v) list" where
  "dict_set [] k v = [(k, v)]"
| "dict_set ((k', v') # kvs) k v =
     (if k' = k then (k, v) # kvs else (k', v') # dict_set kvs k v)"

definition hashable :: "jval \<Rightarrow> bool" where
  "hashable v = (case v of JArr xs \<Rightarrow> False | JObj kvs \<Rightarrow> False | _ \<Rightarrow> True)"

text \<open>
  \<open>{item['name']: item for item in data['results']}\<close> of \<open>load_data\<close>; an exception makes
  \<open>load_data\<close> return \<open>False\<close>.
\<close>

fun load_startup_data :: "startup list \<Rightarrow> (jval \<times> startup) list \<Rightarrow> error + (jval \<times> startup) list" where
  "load_startup_data [] acc = Inr acc"
| "load_startup_data (item # items) acc =
     (case item ''name'' of
        None \<Rightarrow> Inl KeyError
      | Some n \<Rightarrow> if hashable n then load_startup_data items (dict_set acc n item)
                  else Inl TypeError)"

text \<open>
  \<open>StartupEnricher.run\<close>: \<open>about_results\<close> is the \<open>results\<close> array of the about-pages file,
  \<open>halls\<close> the hall file. When \<open>load_data\<close> fails the run returns at once and the output
  file stays as it was.
\<close>

definition enricher_run ::
  "ai_service \<Rightarrow> startup list \<Rightarrow> (string \<rightharpoonup> startup) \<Rightarrow> startup list \<Rightarrow> int option \<Rightarrow> int \<Rightarrow> jval outcome" where
  "enricher_run service about_results halls prior limit start_index =
     (case load_startup_data about_results [] of
        Inl e \<Rightarrow> \<lparr>raised = None, results = prior, calls = []\<rparr>
      | Inr data \<Rightarrow>
          (let env = \<lparr>svc = service, startup_data = data, hall_data = halls\<rparr>;
               startup_names = map fst data
           in resume_loop Inr (enrich_startup env)
                (limit_window startup_names limit start_index) prior []))"

section \<open>Properties of the local fallback (fill\_summaries\_locally.py)\<close>

subsection \<open>Substrings\<close>

lemma str_in_iff: "str_in kw s \<longleftrightarrow> (\<exists>pre post. s = pre @ kw @ post)"
proof (induction s)
  case Nil
  then show ?case by auto
next
  case (Cons c cs)
  show ?case
  proof
    assume "str_in kw (c # cs)"
    then consider "startswith (c # cs) kw" | "str_in kw cs" by auto
    then show "\<exists>pre post. c # cs = pre @ kw @ post"
    proof cases
      case 1
      then have "c # cs = [] @ kw @ drop (length kw) (c # cs)"
        unfolding startswith_def by (metis append_Nil append_take_drop_id)
      then show ?thesis by blast
    next
      case 2
      then obtain pre post where "cs = pre @ kw @ post" using Cons.IH by blast
      then have "c # cs = (c # pre) @ kw @ post" by simp
      then show ?thesis by blast
    qed
  next
    assume "\<exists>pre post. c # cs = pre @ kw @ post"
    then obtain pre post where e: "c # cs = pre @ kw @ post" by blast
    show "str_in kw (c # cs)"
    proof (cases pre)
      case Nil
      then have "startswith (c # cs) kw" using e by (simp add: startswith_def)
      then show ?thesis by simp
    next
      case (Cons p ps)
      then have "cs = ps @ kw @ post" using e by simp
      then have "str_in kw cs" using Cons.IH by blast
      then show ?thesis by simp
    qed
  qed
qed

lemma str_in_append_sep:
  assumes "str_in kw (a @ sep # b)" and "sep \<notin> set kw"
  shows "str_in kw a \<or> str_in kw b"
proof -
  from assms(1) obtain pre post where e: "a @ sep # b = pre @ kw @ post"
    unfolding str_in_iff by blast
  then obtain us where
    "(a = pre @ us \<and> us @ sep # b = kw @ post) \<or> (a @ us = pre \<and> sep # b = us @ kw @ post)"
    unfolding append_eq_append_conv2 by blast
  then show ?thesis
  proof
    assume h: "a = pre @ us \<and> us @ sep # b = kw @ post"
    then obtain vs where
      "(us = kw @ vs \<and> vs @ sep # b = post) \<or> (us @ vs = kw \<and> sep # b = vs @ post)"
      unfolding append_eq_append_conv2 by blast
    then show ?thesis
    proof
      assume "us = kw @ vs \<and> vs @ sep # b = post"
      then have "a = pre @ kw @ vs" using h by simp
      then show ?thesis unfolding str_in_iff by blast
    next
      assume g: "us @ vs = kw \<and> sep # b = vs @ post"
      show ?thesis
      proof (cases vs)
        case Nil
        then have "a = pre @ kw @ []" using h g by simp
        then show ?thesis unfolding str_in_iff by blast
      next
        case (Cons v vs')
        then have "sep \<in> set kw" using g by auto
        then show ?thesis using assms(2) by simp
      qed
    qed
  next
    assume h: "a @ us = pre \<and> sep # b = us @ kw @ post"
    show ?thesis
    proof (cases us)
      case Nil
      show ?thesis
      proof (cases kw)
        case Nil
        have "a = [] @ [] @ a" by simp
        then show ?thesis unfolding str_in_iff Nil by blast
      next
        case (Cons k ks)
        then have "sep \<in> set kw" using h \<open>us = []\<close> by auto
        then show ?thesis using assms(2) by simp
      qed
    next
      case (Cons u us')
      then have "b = us' @ kw @ post" using h by simp
      then show ?thesis unfolding str_in_iff by blast
    qed
  qed
qed

lemma str_in_take: "str_in kw (take n s) \<Longrightarrow> str_in kw s"
proof -
  assume "str_in kw (take n s)"
  then obtain pre post where "take n s = pre @ kw @ post" unfolding str_in_iff by blast
  then have "s = pre @ kw @ (post @ drop n s)"
    by (metis append_assoc append_take_drop_id)
  then show ?thesis unfolding str_in_iff by blast
qed

lemma str_in_join:
  assumes "str_in kw (join [sep] xs)" and "sep \<notin> set kw" and "kw \<noteq> []"
  shows "\<exists>x\<in>set xs. str_in kw x"
  using assms(1)
proof (induction xs rule: induct_list012)
  case 1
  then show ?case using assms(3) by simp
next
  case (2 x)
  then show ?case by simp
next
  case (3 x y ys)
  from "3.prems" have "str_in kw (x @ sep # join [sep] (y # ys))" by simp
  then have "str_in kw x \<or> str_in kw (join [sep] (y # ys))"
    using assms(2) by (rule str_in_append_sep)
  then show ?case using "3.IH"(2) by auto
qed

lemma str_in_dots:
  assumes "str_in kw (a @ ''...'')" and "CHR ''.'' \<notin> set kw" and "kw \<noteq> []"
  shows "str_in kw a"
proof -
  have "str_in kw a \<or> str_in kw ''..''"
    using assms(1,2) str_in_append_sep [of kw a "CHR ''.''" "''..''"] by simp
  moreover have "\<not> str_in kw ''..''"
  proof
    assume "str_in kw ''..''"
    then have "str_in kw [] \<or> str_in kw ''.''"
      using assms(2) str_in_append_sep [of kw "[]" "CHR ''.''" "''.''"] by simp
    then have "str_in kw ''.''" using assms(3) by simp
    then have "str_in kw [] \<or> str_in kw []"
      using assms(2) str_in_append_sep [of kw "[]" "CHR ''.''" "[]"] by simp 
    then show False using assms(3) by simp
  qed
  ultimately show ?thesis by blast
qed

lemma lower_join: "lower (join sep xs) = join (lower sep) (map lower xs)"
  by (induction sep xs rule: join.induct) (simp_all add: lower_def)

lemma lower_space: "lower '' '' = '' ''"
  by (simp add: lower_def lower_char_def)

lemma lower_dots: "lower ''...'' = ''...''"
  by (simp add: lower_def lower_char_def)

lemma lower_take: "lower (take n s) = take n (lower s)"
  by (simp add: lower_def take_map)

lemma lower_append: "lower (a @ b) = lower a @ lower b"
  by (simp add: lower_def)

lemma collect_Nil_iff: "collect ss acc n = [] \<longleftrightarrow> acc = [] \<and> (\<forall>s\<in>set ss. boilerplate s)"
  by (induction ss acc n rule: collect.induct) auto

lemma collect_set: "set (collect ss acc n) \<subseteq> set acc \<union> {s \<in> set ss. \<not> boilerplate s}"
  by (induction ss acc n rule: collect.induct) auto


lemma no_marker_in_summary:
  assumes "extract_summary text = Some s" and "kw = ''cookie'' \<or> kw = ''copyright''"
  shows "\<not> str_in kw (lower s)"
proof
  assume bad: "str_in kw (lower s)"
  from assms(1) obtain t where t: "text = Some t" by (cases "text") (auto simp: extract_summary_def)
  define ss where "ss = collect (re_split [] t) [] 0"
  define summary where "summary = join '' '' ss"
  have s: "s = (if length summary > 400 then take 400 summary @ ''...'' else summary)"
    using assms(1) unfolding extract_summary_def t ss_def summary_def
    by (simp add: Let_def split: if_splits)
  have kw_sp: "CHR '' '' \<notin> set kw" and kw_dot: "CHR ''.'' \<notin> set kw" and kw_ne: "kw \<noteq> []"
    using assms(2) by auto
  have "str_in kw (lower summary)"
  proof (cases "length summary > 400")
    case True
    then have "str_in kw (take 400 (lower summary) @ ''...'')"
      using bad s by (simp add: lower_append lower_take lower_dots)
    then have "str_in kw (take 400 (lower summary))" using kw_dot kw_ne by (rule str_in_dots)
    then show ?thesis by (rule str_in_take)
  next
    case False
    then show ?thesis using bad s by simp
  qed
  then have "str_in kw (join '' '' (map lower ss))"
    by (simp add: summary_def lower_join lower_space)
  then have "\<exists>x\<in>set (map lower ss). str_in kw x" using kw_sp kw_ne str_in_join [of kw "CHR '' ''" "map lower ss"] by simp
  then obtain x where x: "x \<in> set ss" "str_in kw (lower x)" by auto
  have "\<not> boilerplate x" using x(1) collect_set [of "re_split [] t" "[]" 0] by (auto simp: ss_def)
  then show False using x(2) assms(2) by (auto simp: boilerplate_def)
qed

lemma extract_summary_None_iff:
  "extract_summary text = None \<longleftrightarrow>
     (text = None \<or> (\<exists>t. text = Some t \<and> (length t < 20 \<or> (\<forall>s\<in>set (re_split [] t). boilerplate s))))"
  by (cases "text") (auto simp: extract_summary_def Let_def collect_Nil_iff)

lemma extract_summary_length: "extract_summary text = Some s \<Longrightarrow> length s \<le> 403"
  by (cases "text") (auto simp: extract_summary_def Let_def split: if_splits)

subsection \<open>Keyword scoring\<close>

lemma max_from_cases:
  "(max_from best xs = fst best \<and> (\<forall>y\<in>set xs. snd y \<le> snd best)) \<or>
   (\<exists>pre x post. xs = pre @ x # post \<and> max_from best xs = fst x \<and> snd best < snd x \<and>
       (\<forall>y\<in>set pre. snd y < snd x) \<and> (\<forall>y\<in>set post. snd y \<le> snd x))"
proof (induction xs arbitrary: best)
  case Nil
  then show ?case by simp
next
  case (Cons a xs)
  show ?case
  proof (cases "snd a > snd best")
    case True
    from Cons.IH [of a] show ?thesis
    proof
      assume "max_from a xs = fst a \<and> (\<forall>y\<in>set xs. snd y \<le> snd a)"
      then have "a # xs = [] @ a # xs \<and> max_from best (a # xs) = fst a \<and> snd best < snd a \<and>
          (\<forall>y\<in>set []. snd y < snd a) \<and> (\<forall>y\<in>set xs. snd y \<le> snd a)"
        using True by simp
      then show ?thesis by blast
    next
      assume "\<exists>pre x post. xs = pre @ x # post \<and> max_from a xs = fst x \<and> snd a < snd x \<and>
          (\<forall>y\<in>set pre. snd y < snd x) \<and> (\<forall>y\<in>set post. snd y \<le> snd x)"
      then obtain pre x post where h: "xs = pre @ x # post" "max_from a xs = fst x" "snd a < snd x"
          "\<forall>y\<in>set pre. snd y < snd x" "\<forall>y\<in>set post. snd y \<le> snd x" by blast
      then have "a # xs = (a # pre) @ x # post \<and> max_from best (a # xs) = fst x \<and> snd best < snd x \<and>
          (\<forall>y\<in>set (a # pre). snd y < snd x) \<and> (\<forall>y\<in>set post. snd y \<le> snd x)"
        using True by auto
      then show ?thesis by blast
    qed
  next
    case False
    from Cons.IH [of best] show ?thesis
    proof
      assume "max_from best xs = fst best \<and> (\<forall>y\<in>set xs. snd y \<le> snd best)"
      then show ?thesis using False by auto
    next
      assume "\<exists>pre x post. xs = pre @ x # post \<and> max_from best xs = fst x \<and> snd best < snd x \<and>
          (\<forall>y\<in>set pre. snd y < snd x) \<and> (\<forall>y\<in>set post. snd y \<le> snd x)"
      then obtain pre x post where h: "xs = pre @ x # post" "max_from best xs = fst x" "snd best < snd x"
          "\<forall>y\<in>set pre. snd y < snd x" "\<forall>y\<in>set post. snd y \<le> snd x" by blast
      then have "a # xs = (a # pre) @ x # post \<and> max_from best (a # xs) = fst x \<and> snd best < snd x \<and>
          (\<forall>y\<in>set (a # pre). snd y < snd x) \<and> (\<forall>y\<in>set post. snd y \<le> snd x)"
        using False by auto
      then show ?thesis by blast
    qed
  qed
qed

lemma max_from_split:
  "\<exists>pre x post. best # xs = pre @ x # post \<and> max_from best xs = fst x \<and>
       (\<forall>y\<in>set pre. snd y < snd x) \<and> (\<forall>y\<in>set post. snd y \<le> snd x)"
  using max_from_cases [of best xs]
proof
  assume "max_from best xs = fst best \<and> (\<forall>y\<in>set xs. snd y \<le> snd best)"
  then have "best # xs = [] @ best # xs \<and> max_from best xs = fst best \<and>
       (\<forall>y\<in>set []. snd y < snd best) \<and> (\<forall>y\<in>set xs. snd y \<le> snd best)" by simp
  then show ?thesis by blast
next
  assume "\<exists>pre x post. xs = pre @ x # post \<and> max_from best xs = fst x \<and> snd best < snd x \<and>
       (\<forall>y\<in>set pre. snd y < snd x) \<and> (\<forall>y\<in>set post. snd y \<le> snd x)"
  then obtain pre x post where h: "xs = pre @ x # post" "max_from best xs = fst x" "snd best < snd x"
      "\<forall>y\<in>set pre. snd y < snd x" "\<forall>y\<in>set post. snd y \<le> snd x" by blast
  then have "best # xs = (best # pre) @ x # post \<and> max_from best xs = fst x \<and>
       (\<forall>y\<in>set (best # pre). snd y < snd x) \<and> (\<forall>y\<in>set post. snd y \<le> snd x)" by auto
  then show ?thesis by blast
qed

lemma scores_append: "scores (xs @ ys) low = scores xs low @ scores ys low"
  by (simp add: scores_def)

lemma scores_Cons:
  "scores ((c, k) # xs) low = (if 0 < score k low then (c, score k low) # scores xs low else scores xs low)"
  by (simp add: scores_def)

lemma scores_Nil_iff: "scores table low = [] \<longleftrightarrow> (\<forall>(c, k)\<in>set table. score k low = 0)"
  by (induction table) (auto simp: scores_def)

lemma scores_snd_pos: "y \<in> set (scores table low) \<Longrightarrow> 0 < snd y"
  by (auto simp: scores_def)

lemma scores_mem: "(c, k) \<in> set table \<Longrightarrow> 0 < score k low \<Longrightarrow> (c, score k low) \<in> set (scores table low)"
  by (force simp: scores_def)

lemma scores_split:
  "scores table low = pre' @ x' # post' \<Longrightarrow>
     \<exists>pre k post. table = pre @ (fst x', k) # post \<and> snd x' = score k low \<and>
        scores pre low = pre' \<and> scores post low = post'"
proof (induction table arbitrary: pre')
  case Nil
  then show ?case by (simp add: scores_def)
next
  case (Cons a table)
  obtain c k where a: "a = (c, k)" by (cases a)
  show ?case
  proof (cases "0 < score k low")
    case False
    then have "scores table low = pre' @ x' # post'" using Cons.prems a by (simp add: scores_Cons)
    then obtain pre k' post where h: "table = pre @ (fst x', k') # post" "snd x' = score k' low"
        "scores pre low = pre'" "scores post low = post'" using Cons.IH by blast
    then have "a # table = (a # pre) @ (fst x', k') # post \<and> snd x' = score k' low \<and>
        scores (a # pre) low = pre' \<and> scores post low = post'"
      using False a by (simp add: scores_Cons)
    then show ?thesis by blast
  next
    case True
    then have e: "(c, score k low) # scores table low = pre' @ x' # post'"
      using Cons.prems a by (simp add: scores_Cons)
    show ?thesis
    proof (cases pre')
      case Nil
      then have "a # table = [] @ (fst x', k) # table \<and> snd x' = score k low \<and>
          scores [] low = pre' \<and> scores table low = post'"
        using e a by (auto simp: scores_def)
      then show ?thesis by blast
    next
      case (Cons p ps)
      then have "scores table low = ps @ x' # post'" and p: "p = (c, score k low)" using e by auto
      then obtain pre k' post where h: "table = pre @ (fst x', k') # post" "snd x' = score k' low"
          "scores pre low = ps" "scores post low = post'" using Cons.IH by blast
      then have "a # table = (a # pre) @ (fst x', k') # post \<and> snd x' = score k' low \<and>
          scores (a # pre) low = pre' \<and> scores post low = post'"
        using True a p Cons by (simp add: scores_Cons)
      then show ?thesis by blast
    qed
  qed
qed

lemma scores_bound_lt:
  assumes "\<forall>y\<in>set (scores pre low). snd y < n" and "0 < n" and "(c, k) \<in> set pre"
  shows "score k low < n"
proof (cases "0 < score k low")
  case True
  then have "(c, score k low) \<in> set (scores pre low)" using assms(3) by (rule scores_mem [rotated])
  then show ?thesis using assms(1) by fastforce
next
  case False
  then show ?thesis using assms(2) by simp
qed

lemma scores_bound_le:
  assumes "\<forall>y\<in>set (scores post low). snd y \<le> n" and "(c, k) \<in> set post"
  shows "score k low \<le> n"
proof (cases "0 < score k low")
  case True
  then have "(c, score k low) \<in> set (scores post low)" using assms(2) by (rule scores_mem [rotated])
  then show ?thesis using assms(1) by fastforce
next
  case False
  then show ?thesis by simp
qed

lemma categorize_with_Other:
  "\<forall>(c, k)\<in>set table. score k (lower t) = 0 \<Longrightarrow> categorize_with table (Some t) = ''Other''"
  using scores_Nil_iff [of table "lower t"] by (simp add: categorize_with_def)

lemma categorize_with_max:
  assumes "t \<noteq> []" and "\<exists>(c, k)\<in>set table. 0 < score k (lower t)"
  shows "\<exists>pre k post. table = pre @ (categorize_with table (Some t), k) # post \<and>
           0 < score k (lower t) \<and>
           (\<forall>(c', k')\<in>set pre. score k' (lower t) < score k (lower t)) \<and>
           (\<forall>(c', k')\<in>set post. score k' (lower t) \<le> score k (lower t))"
proof -
  define low where "low = lower t"
  have "scores table low \<noteq> []" using assms(2) scores_Nil_iff [of table low] by (auto simp: low_def)
  then obtain b bs where b: "scores table low = b # bs" by (cases "scores table low") auto
  then have res: "categorize_with table (Some t) = max_from b bs"
    using assms(1) by (simp add: categorize_with_def low_def)
  obtain pre' x' post' where m: "b # bs = pre' @ x' # post'" "max_from b bs = fst x'"
      "\<forall>y\<in>set pre'. snd y < snd x'" "\<forall>y\<in>set post'. snd y \<le> snd x'"
    using max_from_split [of b bs] by blast
  have pos: "0 < snd x'" using scores_snd_pos [of x' table low] b m(1) by simp
  obtain pre k post where s: "table = pre @ (fst x', k) # post" "snd x' = score k low"
      "scores pre low = pre'" "scores post low = post'"
    using scores_split [of table low pre' x' post'] b m(1) by auto
  have "\<forall>(c', k')\<in>set pre. score k' low < score k low"
    using scores_bound_lt [of pre low "score k low"] m(3) pos s(2,3) by auto
  moreover have "\<forall>(c', k')\<in>set post. score k' low \<le> score k low"
    using scores_bound_le [of post low "score k low"] m(4) s(2,4) by auto
  ultimately show ?thesis using s(1,2) pos res m(2) unfolding low_def by auto
qed

lemma categorize_with_tie:
  assumes "table = pre @ (c1, k1) # mid @ (c2, k2) # post"
    and "score k1 (lower t) = 1" and "score k2 (lower t) = 1"
    and "\<forall>(c, k)\<in>set (pre @ mid @ post). score k (lower t) = 0"
    and "t \<noteq> []"
  shows "categorize_with table (Some t) = c1"
proof -
  have z: "scores pre (lower t) = []" "scores mid (lower t) = []" "scores post (lower t) = []"
    using assms(4) by (auto simp: scores_Nil_iff)
  have "scores table (lower t) = [(c1, 1), (c2, 1)]"
    unfolding assms(1) using z assms(2,3) by (simp add: scores_append scores_Cons)
  then show ?thesis using assms(5) by (simp add: categorize_with_def)
qed

lemma keywords_nonempty: "\<forall>(c, k)\<in>set category_keywords. [] \<notin> set k"
  by (simp add: category_keywords_def)

lemma score_empty_text: "[] \<notin> set k \<Longrightarrow> score k [] = 0"
  by (induction k) (auto simp: score_def)

subsection \<open>The loop body of the local stage\<close>

lemma collect_not_boilerplate:
  "\<forall>s\<in>set acc. \<not> boilerplate s \<Longrightarrow> \<forall>s\<in>set (collect ss acc n). \<not> boilerplate s"
  using collect_set [of ss acc n] by blast

lemma join_Nil_iff: "join sep xs = [] \<Longrightarrow> xs = [] \<or> hd xs = []"
  by (induction sep xs rule: join.induct) auto

lemma extract_summary_nonempty: "extract_summary text \<noteq> Some []"
proof
  assume a: "extract_summary text = Some []"
  then obtain t where t: "text = Some t" by (cases "text") (auto simp: extract_summary_def)
  define ss where "ss = collect (re_split [] t) [] 0"
  have ne: "ss \<noteq> []" using a unfolding extract_summary_def t ss_def
    by (auto simp: Let_def split: if_splits)
  have "join '' '' ss = []" using a unfolding extract_summary_def t ss_def
    by (auto simp: Let_def split: if_splits)
  then have "hd ss = []" using ne join_Nil_iff by blast
  moreover have "\<not> boilerplate (hd ss)"
    using collect_not_boilerplate [of "[]" "re_split [] t" 0] ne by (simp add: ss_def)
  ultimately show False by (simp add: boilerplate_def)
qed

lemma fill_summary_apply:
  "fill_summary c s f =
     (if f = ''summary'' then
        Some (JStr (case extract_summary (Some c) of
                      Some e \<Rightarrow> e | None \<Rightarrow> ''Information not available.''))
      else if f = ''confidence'' \<and> extract_summary (Some c) \<noteq> None
        then Some (JStr ''Low (Extracted)'')
      else s f)"
  using extract_summary_nonempty [of "Some c"]
  by (auto simp: fill_summary_def split: option.splits)

lemma fill_category_apply:
  "fill_category c s f =
     (if c \<noteq> [] then
        (if f = ''category'' then Some (JStr (categorize_by_keywords (Some c)))
         else if f = ''tags'' \<and> \<not> truthy (dict_get s ''tags'')
           then Some (JArr [JStr (category_tag (categorize_by_keywords (Some c)))])
         else s f)
      else (if f = ''category'' then Some (JStr ''Uncategorized'') else s f))"
  by (auto simp: fill_category_def Let_def dict_get_def)

lemma local_enrich_startup_cases:
  assumes "local_enrich_startup about_map startup = Inr startup'"
  shows "(\<not> needs_summary_local startup \<and> \<not> needs_category_local startup \<and> startup' = startup) \<or>
         (\<exists>name content.
            (needs_summary_local startup \<or> needs_category_local startup) \<and>
            startup ''name'' = Some name \<and> about_get about_map name = Inr content \<and>
            startup' =
              (if needs_category_local startup then fill_category (clean_text content) else id)
                ((if needs_summary_local startup then fill_summary (clean_text content) else id) startup))"
  using assms
  by (auto simp: local_enrich_startup_def Let_def split: if_splits option.splits sum.splits)

lemma needs_category_local_fill_summary:
  "needs_category_local (fill_summary c s) = needs_category_local s"
  by (simp add: needs_category_local_def dict_get_def fill_summary_apply)

lemma tags_fill_summary: "dict_get (fill_summary c s) ''tags'' = dict_get s ''tags''"
  by (simp add: dict_get_def fill_summary_apply)

lemma local_run_nth:
  "local_run about_map rs = Inr rs' \<Longrightarrow>
     length rs' = length rs \<and> (\<forall>i<length rs. local_enrich_startup about_map (rs ! i) = Inr (rs' ! i))"
proof (induction rs arbitrary: rs')
  case Nil
  then show ?case by simp
next
  case (Cons r rs)
  from Cons.prems obtain r' rest' where
    h: "local_enrich_startup about_map r = Inr r'" "local_run about_map rs = Inr rest'" "rs' = r' # rest'"
    by (auto split: sum.splits)
  from Cons.IH [OF h(2)] have ih: "length rest' = length rs"
      "\<forall>i<length rs. local_enrich_startup about_map (rs ! i) = Inr (rest' ! i)" by auto
  show ?case using h ih by (auto simp: nth_Cons split: nat.splits)
qed

subsection \<open>Categories of the keyword table\<close>

lemma categorize_by_keywords_range:
  "categorize_by_keywords text = ''Other'' \<or> categorize_by_keywords text \<in> fst ` set category_keywords"
proof (cases "text")
  case None
  then show ?thesis by (simp add: categorize_by_keywords_def categorize_with_def)
next
  case (Some t)
  show ?thesis
  proof (cases "\<exists>(c, k)\<in>set category_keywords. 0 < score k (lower t)")
    case False
    then have "\<forall>(c, k)\<in>set category_keywords. score k (lower t) = 0" by auto
    then show ?thesis unfolding Some categorize_by_keywords_def
      using categorize_with_Other by blast
  next
    case True
    show ?thesis
    proof (cases "t = []")
      case True
      then show ?thesis unfolding Some by (simp add: categorize_by_keywords_def categorize_with_def)
    next
      case False
      from categorize_with_max [OF False True] obtain pre k post where
        "category_keywords = pre @ (categorize_with category_keywords (Some t), k) # post" by blast
      then have "(categorize_with category_keywords (Some t), k) \<in> set category_keywords"
        by (metis in_set_conv_decomp)
      then show ?thesis unfolding Some categorize_by_keywords_def by force
    qed
  qed
qed

lemma keyword_categories_in_taxonomy: "fst ` set category_keywords \<subseteq> set categories"
  by (simp add: category_keywords_def categories_def)

lemma Other_in_taxonomy: "''Other'' \<in> set categories"
  by (simp add: categories_def)

lemma Uncategorized_not_allowed: "\<not> taxonomy_or_sentinel ''Uncategorized''"
  by (simp add: taxonomy_or_sentinel_def categories_def)

lemma categorize_by_keywords_in_taxonomy: "categorize_by_keywords text \<in> set categories"
  using categorize_by_keywords_range [of "text"] keyword_categories_in_taxonomy Other_in_taxonomy
  by auto

lemma local_enrich_startup_tags:
  assumes "local_enrich_startup about_map startup = Inr startup'"
  shows "(truthy (dict_get startup ''tags'') \<longrightarrow> startup' ''tags'' = startup ''tags'') \<and>
         (\<not> needs_category_local startup \<longrightarrow> startup' ''tags'' = startup ''tags'') \<and>
         (needs_category_local startup \<and> \<not> truthy (dict_get startup ''tags'') \<longrightarrow>
            (\<exists>name content.
               startup ''name'' = Some name \<and> about_get about_map name = Inr content \<and>
               (if clean_text content \<noteq> []
                then startup' ''category'' =
                       Some (JStr (categorize_by_keywords (Some (clean_text content)))) \<and>
                     startup' ''tags'' =
                       Some (JArr [JStr (strip (takeWhile (\<lambda>c. c \<noteq> CHR ''&'')
                                      (categorize_by_keywords (Some (clean_text content)))))])
                else startup' ''tags'' = startup ''tags'')))"
  using local_enrich_startup_cases [OF assms]
  by (auto simp: fill_category_apply fill_summary_apply tags_fill_summary category_tag_def)

lemma local_enrich_startup_total:
  "startup ''name'' = Some (JStr n) \<Longrightarrow> \<exists>startup'. local_enrich_startup about_map startup = Inr startup'"
  by (simp add: local_enrich_startup_def Let_def about_get_def)

lemma local_run_single:
  "local_enrich_startup about_map r = Inr r' \<Longrightarrow> local_run about_map [r] = Inr [r']"
  by simp

lemma local_enrich_startup_category:
  assumes "local_enrich_startup about_map startup = Inr startup'"
  shows "(\<not> needs_category_local startup \<longrightarrow> startup' ''category'' = startup ''category'') \<and>
         (needs_category_local startup \<longrightarrow>
            (\<exists>name content.
               startup ''name'' = Some name \<and> about_get about_map name = Inr content \<and>
               (if clean_text content \<noteq> []
                then startup' ''category'' =
                       Some (JStr (categorize_by_keywords (Some (clean_text content))))
                else startup' ''category'' = Some (JStr ''Uncategorized''))))"
  using local_enrich_startup_cases [OF assms]
  by (auto simp: fill_category_apply fill_summary_apply)

lemma local_enrich_startup_summary:
  assumes "local_enrich_startup about_map startup = Inr startup'"
  shows "(\<exists>name content e.
            startup ''name'' = Some name \<and> about_get about_map name = Inr content \<and>
            needs_summary_local startup \<and> extract_summary (Some (clean_text content)) = Some e \<and>
            startup' ''summary'' = Some (JStr e) \<and>
            startup' ''confidence'' = Some (JStr ''Low (Extracted)'')) \<or>
         (startup' ''confidence'' = startup ''confidence'' \<and>
          (startup' ''summary'' = startup ''summary'' \<or>
           needs_summary_local startup \<and>
           startup' ''summary'' = Some (JStr ''Information not available.'')))"
  using local_enrich_startup_cases [OF assms]
  by (cases "needs_category_local startup"; cases "needs_summary_local startup")
     (auto simp: fill_category_apply fill_summary_apply split: option.splits)

lemma local_enrich_startup_frame:
  assumes "local_enrich_startup about_map startup = Inr startup'"
  shows "(\<forall>f. f \<noteq> ''summary'' \<and> f \<noteq> ''confidence'' \<and> f \<noteq> ''category'' \<and> f \<noteq> ''tags'' \<longrightarrow>
            startup' f = startup f) \<and>
         (startup' ''summary'' \<noteq> startup ''summary'' \<or>
          startup' ''confidence'' \<noteq> startup ''confidence'' \<longrightarrow> needs_summary_local startup) \<and>
         (startup' ''category'' \<noteq> startup ''category'' \<longrightarrow> needs_category_local startup) \<and>
         (startup' ''tags'' \<noteq> startup ''tags'' \<longrightarrow>
            needs_category_local startup \<and> \<not> truthy (dict_get startup ''tags''))"
  using local_enrich_startup_cases [OF assms]
  by (auto simp: fill_category_apply fill_summary_apply tags_fill_summary split: if_splits)

lemma needs_summary_iff:
  "needs_summary startup \<longleftrightarrow>
     category_missing (dict_get startup ''category'') \<or> summary_missing (dict_get startup ''summary'')"
  by (simp add: needs_summary_def category_missing_def summary_missing_def)

lemma enhance_summary_cases:
  assumes "enhance_summary env name s = Inr mid"
  shows "mid = s \<or> (\<exists>t. t \<noteq> [] \<and> mid = s(''summary'' \<mapsto> JStr t, ''confidence'' \<mapsto> JStr ''Medium''))"
  using assms
  by (auto simp: enhance_summary_def split: sum.splits if_splits option.splits)

lemma enhance_linkedin_cases:
  "\<exists>v. enhance_linkedin env name s mid = mid(''linkedin_url'' \<mapsto> v)"
  by (auto simp: enhance_linkedin_def split: option.splits)

lemma enhance_startup_cases:
  assumes "enhance_startup env s = Inr s'"
  shows "\<exists>mid. (mid = s \<or>
                 needs_summary s \<and>
                 (\<exists>t. t \<noteq> [] \<and> mid = s(''summary'' \<mapsto> JStr t, ''confidence'' \<mapsto> JStr ''Medium''))) \<and>
               (s' = mid \<or>
                \<not> truthy (dict_get s ''linkedin_url'') \<and> (\<exists>v. s' = mid(''linkedin_url'' \<mapsto> v)))"
proof -
  from assms obtain name where name: "s ''name'' = Some name"
    by (auto simp: enhance_startup_def split: option.splits)
  define r where "r = (if needs_summary s then enhance_summary env name s else Inr s)"
  from assms name obtain mid where mid: "r = Inr mid"
    by (auto simp: enhance_startup_def r_def split: sum.splits)
  have m: "mid = s \<or> needs_summary s \<and>
      (\<exists>t. t \<noteq> [] \<and> mid = s(''summary'' \<mapsto> JStr t, ''confidence'' \<mapsto> JStr ''Medium''))"
  proof (cases "needs_summary s")
    case True
    then have "enhance_summary env name s = Inr mid" using mid by (simp add: r_def)
    from enhance_summary_cases [OF this] True show ?thesis by blast
  next
    case False
    then show ?thesis using mid by (simp add: r_def)
  qed
  have "s' = mid \<or> \<not> truthy (dict_get s ''linkedin_url'') \<and> (\<exists>v. s' = mid(''linkedin_url'' \<mapsto> v))"
  proof (cases "truthy (dict_get s ''linkedin_url'')")
    case True
    then show ?thesis using assms name mid by (simp add: enhance_startup_def r_def)
  next
    case False
    then have "s' = enhance_linkedin env name s mid"
      using assms name mid by (simp add: enhance_startup_def r_def)
    then show ?thesis using False enhance_linkedin_cases [of env name s mid] by auto
  qed
  with m show ?thesis by blast
qed

lemma enhance_startup_frame:
  assumes "enhance_startup env s = Inr s'"
  shows "(\<forall>f. f \<noteq> ''summary'' \<and> f \<noteq> ''confidence'' \<and> f \<noteq> ''linkedin_url'' \<longrightarrow> s' f = s f) \<and>
         (s' ''summary'' \<noteq> s ''summary'' \<or> s' ''confidence'' \<noteq> s ''confidence'' \<longrightarrow>
            category_missing (dict_get s ''category'') \<or> summary_missing (dict_get s ''summary'')) \<and>
         (s' ''linkedin_url'' \<noteq> s ''linkedin_url'' \<longrightarrow> linkedin_missing (dict_get s ''linkedin_url''))"
  using enhance_startup_cases [OF assms]
  by (auto simp: needs_summary_iff linkedin_missing_def)

lemma enhance_startup_confidence:
  assumes "enhance_startup env s = Inr s'"
  shows "(s' ''summary'' = s ''summary'' \<and> s' ''confidence'' = s ''confidence'') \<or>
         (needs_summary s \<and> (\<exists>t. t \<noteq> [] \<and> s' ''summary'' = Some (JStr t)) \<and>
          s' ''confidence'' = Some (JStr ''Medium''))"
  using enhance_startup_cases [OF assms]
  by auto

subsection \<open>Claims about the fallback summarizer and categorizer\<close>

text \<open>
  C5. \<open>extract_summary\<close> is said to stop once three sentences are collected. The loop
  has no such test: it stops only when the accumulated length exceeds 350. On a text of
  four short sentences all four are collected and returned, although the first three
  total far less than 350 characters.
\<close>

theorem extract_summary_four_sentences:
  "extract_summary (Some ''We build robots. We sell drones. We train pilots. We fly daily.'') =
     Some ''We build robots. We sell drones. We train pilots. We fly daily.'' \<and>
   length (collect (re_split [] ''We build robots. We sell drones. We train pilots. We fly daily.'') [] 0) = 4"
  by code_simp

text \<open>
  C7. \<open>extract_summary\<close> returns \<open>None\<close> exactly when the text is absent, shorter than
  20 characters, or has no qualifying sentence; any summary it returns has at most 403
  characters and contains neither \<open>cookie\<close> nor \<open>copyright\<close> in any letter case.
\<close>

theorem extract_summary_result:
  "(extract_summary text = None \<longleftrightarrow>
      (text = None \<or>
       (\<exists>t. text = Some t \<and> (length t < 20 \<or> (\<forall>sent\<in>set (re_split [] t). boilerplate sent))))) \<and>
   (\<forall>s. extract_summary text = Some s \<longrightarrow>
      length s \<le> 403 \<and> \<not> str_in ''cookie'' (lower s) \<and> \<not> str_in ''copyright'' (lower s))"
  using extract_summary_None_iff [of "text"] extract_summary_length [of "text"]
    no_marker_in_summary [of "text" _ "''cookie''"] no_marker_in_summary [of "text" _ "''copyright''"]
  by blast

theorem extract_summary_result_witness:
  "extract_summary (Some ''Acme AI builds predictive maintenance software for factories. Cookie policy applies.'')
     = Some ''Acme AI builds predictive maintenance software for factories.'' \<and>
   length ''Acme AI builds predictive maintenance software for factories.'' \<le> 403 \<and>
   \<not> str_in ''cookie'' (lower ''Acme AI builds predictive maintenance software for factories.'') \<and>
   \<not> str_in ''copyright'' (lower ''Acme AI builds predictive maintenance software for factories.'') \<and>
   extract_summary (Some ''Cookie policy applies.'') = None \<and>
   list_all boilerplate (re_split [] ''Cookie policy applies.'')"
proof -
  let ?t = "''Acme AI builds predictive maintenance software for factories. Cookie policy applies.''"
  let ?s = "''Acme AI builds predictive maintenance software for factories.''"
  have e: "extract_summary (Some ?t) = Some ?s"
    by code_simp
  have n: "extract_summary (Some ''Cookie policy applies.'') = None"
    by code_simp
  from extract_summary_result [of "Some ?t"] e
  have "length ?s \<le> 403 \<and> \<not> str_in ''cookie'' (lower ?s) \<and> \<not> str_in ''copyright'' (lower ?s)"
    by blast
  moreover from extract_summary_result [of "Some ''Cookie policy applies.''"] n
  have "list_all boilerplate (re_split [] ''Cookie policy applies.'')"
    by (simp add: list_all_iff)
  ultimately show ?thesis using e n by blast
qed

lemma score_count:
  "score kws low = length (filter (\<lambda>kw. \<exists>pre post. low = pre @ kw @ post) kws)"
  by (simp add: score_def str_in_iff)

lemma categorize_by_keywords_by_score:
  "categorize_by_keywords None = ''Other'' \<and>
   ((\<forall>(cat, kws)\<in>set category_keywords. score kws (lower t) = 0) \<longrightarrow>
      categorize_by_keywords (Some t) = ''Other'') \<and>
   ((\<exists>(cat, kws)\<in>set category_keywords. 0 < score kws (lower t)) \<longrightarrow>
      (\<exists>pre kws post.
         category_keywords = pre @ (categorize_by_keywords (Some t), kws) # post \<and>
         0 < score kws (lower t) \<and>
         (\<forall>(cat', kws')\<in>set pre. score kws' (lower t) < score kws (lower t)) \<and>
         (\<forall>(cat', kws')\<in>set post. score kws' (lower t) \<le> score kws (lower t)))) \<and>
   (\<forall>pre c1 k1 mid c2 k2 post.
      category_keywords = pre @ (c1, k1) # mid @ (c2, k2) # post \<and>
      score k1 (lower t) = 1 \<and> score k2 (lower t) = 1 \<and>
      (\<forall>(cat, kws)\<in>set (pre @ mid @ post). score kws (lower t) = 0) \<longrightarrow>
      categorize_by_keywords (Some t) = c1)"
proof -
  have ne: "t \<noteq> []" if "(c, k) \<in> set category_keywords" "0 < score k (lower t)" for c k
  proof
    assume "t = []"
    moreover have "[] \<notin> set k" using keywords_nonempty that(1) by auto
    ultimately show False using score_empty_text [of k] that(2) by (simp add: lower_def)
  qed
  have a: "categorize_by_keywords None = ''Other''"
    by (simp add: categorize_by_keywords_def categorize_with_def)
  have b: "(\<forall>(cat, kws)\<in>set category_keywords. score kws (lower t) = 0) \<longrightarrow>
      categorize_by_keywords (Some t) = ''Other''"
    unfolding categorize_by_keywords_def using categorize_with_Other [of category_keywords t] by blast
  have c: "(\<exists>(cat, kws)\<in>set category_keywords. 0 < score kws (lower t)) \<longrightarrow>
      (\<exists>pre kws post.
         category_keywords = pre @ (categorize_by_keywords (Some t), kws) # post \<and>
         0 < score kws (lower t) \<and>
         (\<forall>(cat', kws')\<in>set pre. score kws' (lower t) < score kws (lower t)) \<and>
         (\<forall>(cat', kws')\<in>set post. score kws' (lower t) \<le> score kws (lower t)))"
  proof
    assume h: "\<exists>(cat, kws)\<in>set category_keywords. 0 < score kws (lower t)"
    then have "t \<noteq> []" using ne by blast
    then show "\<exists>pre kws post.
         category_keywords = pre @ (categorize_by_keywords (Some t), kws) # post \<and>
         0 < score kws (lower t) \<and>
         (\<forall>(cat', kws')\<in>set pre. score kws' (lower t) < score kws (lower t)) \<and>
         (\<forall>(cat', kws')\<in>set post. score kws' (lower t) \<le> score kws (lower t))"
      unfolding categorize_by_keywords_def using h by (rule categorize_with_max)
  qed
  have d: "categorize_by_keywords (Some t) = c1"
    if "category_keywords = pre @ (c1, k1) # mid @ (c2, k2) # post"
      "score k1 (lower t) = 1" "score k2 (lower t) = 1"
      "\<forall>(cat, kws)\<in>set (pre @ mid @ post). score kws (lower t) = 0"
    for pre c1 k1 mid c2 k2 post
  proof -
    have "(c1, k1) \<in> set category_keywords" unfolding that(1) by simp
    then have "t \<noteq> []" using ne [of c1 k1] that(2) by simp
    with that show ?thesis
      unfolding categorize_by_keywords_def by (intro categorize_with_tie [of _ pre c1 k1 mid c2 k2 post]) 
  qed
  show ?thesis using a b c d by blast
qed

text \<open>
  C6. The score of a category is the number of its keywords that occur as a substring of
  the case-folded text. \<open>categorize_by_keywords\<close> returns \<open>Other\<close> when every category
  scores nothing. Otherwise it returns a category of the table whose score is positive,
  strictly larger than the score of every category declared before it and at least the
  score of every category declared after it. In particular, when two categories score one
  and all others score nothing, the one declared first is returned.
\<close>

theorem categorize_by_keywords_first_max:
  "categorize_by_keywords None = ''Other'' \<and>
   ((\<forall>(cat, kws)\<in>set category_keywords.
       length (filter (\<lambda>kw. \<exists>pre post. lower t = pre @ kw @ post) kws) = 0) \<longrightarrow>
      categorize_by_keywords (Some t) = ''Other'') \<and>
   ((\<exists>(cat, kws)\<in>set category_keywords.
       0 < length (filter (\<lambda>kw. \<exists>pre post. lower t = pre @ kw @ post) kws)) \<longrightarrow>
      (\<exists>pre kws post.
         category_keywords = pre @ (categorize_by_keywords (Some t), kws) # post \<and>
         0 < length (filter (\<lambda>kw. \<exists>pre post. lower t = pre @ kw @ post) kws) \<and>
         (\<forall>(cat', kws')\<in>set pre.
            length (filter (\<lambda>kw. \<exists>pre post. lower t = pre @ kw @ post) kws') <
            length (filter (\<lambda>kw. \<exists>pre post. lower t = pre @ kw @ post) kws)) \<and>
         (\<forall>(cat', kws')\<in>set post.
            length (filter (\<lambda>kw. \<exists>pre post. lower t = pre @ kw @ post) kws') \<le>
            length (filter (\<lambda>kw. \<exists>pre post. lower t = pre @ kw @ post) kws)))) \<and>
   (\<forall>pre c1 k1 mid c2 k2 post.
      category_keywords = pre @ (c1, k1) # mid @ (c2, k2) # post \<and>
      length (filter (\<lambda>kw. \<exists>pre post. lower t = pre @ kw @ post) k1) = 1 \<and>
      length (filter (\<lambda>kw. \<exists>pre post. lower t = pre @ kw @ post) k2) = 1 \<and>
      (\<forall>(cat, kws)\<in>set (pre @ mid @ post).
         length (filter (\<lambda>kw. \<exists>pre post. lower t = pre @ kw @ post) kws) = 0) \<longrightarrow>
      categorize_by_keywords (Some t) = c1)"
  using categorize_by_keywords_by_score [of t] unfolding score_count .

theorem categorize_by_keywords_first_max_witness:
  "categorize_by_keywords (Some ''zzz'') = ''Other'' \<and>
   categorize_by_keywords (Some ''health bank'') = ''Healthcare & Biotech'' \<and>
   categorize_by_keywords (Some ''health bank loan'') = ''Fintech & Banking'' \<and>
   length (filter (\<lambda>kw. \<exists>pre post. lower ''health bank loan'' = pre @ kw @ post)
     [''health'', ''medical'', ''patient'', ''diagnostic'', ''clinic'', ''hospital'', ''pharma'', ''biotech'']) = 1 \<and>
   length (filter (\<lambda>kw. \<exists>pre post. lower ''health bank loan'' = pre @ kw @ post)
     [''finance'', ''bank'', ''payment'', ''fintech'', ''loan'', ''credit'', ''wealth'', ''insurtech'', ''invest'']) = 2 \<and>
   (\<exists>pre kws post.
      category_keywords = pre @ (''Fintech & Banking'', kws) # post \<and>
      0 < length (filter (\<lambda>kw. \<exists>pre post. lower ''health bank loan'' = pre @ kw @ post) kws) \<and>
      (\<forall>(cat', kws')\<in>set pre.
         length (filter (\<lambda>kw. \<exists>pre post. lower ''health bank loan'' = pre @ kw @ post) kws') <
         length (filter (\<lambda>kw. \<exists>pre post. lower ''health bank loan'' = pre @ kw @ post) kws)) \<and>
      (\<forall>(cat', kws')\<in>set post.
         length (filter (\<lambda>kw. \<exists>pre post. lower ''health bank loan'' = pre @ kw @ post) kws') \<le>
         length (filter (\<lambda>kw. \<exists>pre post. lower ''health bank loan'' = pre @ kw @ post) kws)))"
proof -
  let ?k1 = "[''health'', ''medical'', ''patient'', ''diagnostic'', ''clinic'', ''hospital'', ''pharma'', ''biotech'']"
  let ?k2 = "[''finance'', ''bank'', ''payment'', ''fintech'', ''loan'', ''credit'', ''wealth'', ''insurtech'', ''invest'']"
  let ?post = "drop 2 category_keywords"
  have "\<forall>(cat, kws)\<in>set category_keywords. score kws (lower ''zzz'') = 0"
    by code_simp
  then have z: "\<forall>(cat, kws)\<in>set category_keywords.
      length (filter (\<lambda>kw. \<exists>pre post. lower ''zzz'' = pre @ kw @ post) kws) = 0"
    unfolding score_count .
  have other: "categorize_by_keywords (Some ''zzz'') = ''Other''"
    using categorize_by_keywords_first_max [of "''zzz''"] z by blast
  have tab: "category_keywords =
      [] @ (''Healthcare & Biotech'', ?k1) # [] @ (''Fintech & Banking'', ?k2) # ?post"
    by (simp add: category_keywords_def)
  have "score ?k1 (lower ''health bank'') = 1" by code_simp
  then have s1: "length (filter (\<lambda>kw. \<exists>pre post. lower ''health bank'' = pre @ kw @ post) ?k1) = 1"
    unfolding score_count .
  have "score ?k2 (lower ''health bank'') = 1" by code_simp
  then have s2: "length (filter (\<lambda>kw. \<exists>pre post. lower ''health bank'' = pre @ kw @ post) ?k2) = 1"
    unfolding score_count .
  have "\<forall>(cat, kws)\<in>set ([] @ [] @ ?post). score kws (lower ''health bank'') = 0"
    by code_simp
  then have s0: "\<forall>(cat, kws)\<in>set ([] @ [] @ ?post).
      length (filter (\<lambda>kw. \<exists>pre post. lower ''health bank'' = pre @ kw @ post) kws) = 0"
    unfolding score_count .
  have tie: "categorize_by_keywords (Some ''health bank'') = ''Healthcare & Biotech''"
    using categorize_by_keywords_first_max [of "''health bank''"] tab s1 s2 s0 by blast
  have win: "categorize_by_keywords (Some ''health bank loan'') = ''Fintech & Banking''"
    by code_simp
  have "score ?k1 (lower ''health bank loan'') = 1" by code_simp
  then have c1: "length (filter (\<lambda>kw. \<exists>pre post. lower ''health bank loan'' = pre @ kw @ post) ?k1) = 1"
    unfolding score_count .
  have "score ?k2 (lower ''health bank loan'') = 2" by code_simp
  then have c2: "length (filter (\<lambda>kw. \<exists>pre post. lower ''health bank loan'' = pre @ kw @ post) ?k2) = 2"
    unfolding score_count .
  have "\<exists>(cat, kws)\<in>set category_keywords. 0 < score kws (lower ''health bank loan'')"
    by code_simp
  then have "\<exists>(cat, kws)\<in>set category_keywords.
      0 < length (filter (\<lambda>kw. \<exists>pre post. lower ''health bank loan'' = pre @ kw @ post) kws)"
    unfolding score_count .
  then have ex: "\<exists>pre kws post.
      category_keywords = pre @ (categorize_by_keywords (Some ''health bank loan''), kws) # post \<and>
      0 < length (filter (\<lambda>kw. \<exists>pre post. lower ''health bank loan'' = pre @ kw @ post) kws) \<and>
      (\<forall>(cat', kws')\<in>set pre.
         length (filter (\<lambda>kw. \<exists>pre post. lower ''health bank loan'' = pre @ kw @ post) kws') <
         length (filter (\<lambda>kw. \<exists>pre post. lower ''health bank loan'' = pre @ kw @ post) kws)) \<and>
      (\<forall>(cat', kws')\<in>set post.
         length (filter (\<lambda>kw. \<exists>pre post. lower ''health bank loan'' = pre @ kw @ post) kws') \<le>
         length (filter (\<lambda>kw. \<exists>pre post. lower ''health bank loan'' = pre @ kw @ post) kws))"
    using categorize_by_keywords_first_max [of "''health bank loan''"] by blast
  from other tie win c1 c2 ex [unfolded win] show ?thesis by (intro conjI)
qed

subsection \<open>Claims about the run of the local stage\<close>

text \<open>
  C10. When \<open>LocalEnricher.run\<close> fills the category of a record from the keyword table
  (the record needs a category and its cleaned about text is not empty) and the record's
  \<open>tags\<close> are absent or falsy, \<open>tags\<close> becomes the one-element list holding the new
  category's text before the first \<open>&\<close>, stripped. A record whose \<open>tags\<close> are truthy
  keeps them.
\<close>

theorem local_run_tags:
  assumes "local_run about_map rs = Inr rs'" and "i < length rs"
  shows "length rs' = length rs \<and>
         (truthy (dict_get (rs ! i) ''tags'') \<longrightarrow> (rs' ! i) ''tags'' = (rs ! i) ''tags'') \<and>
         (needs_category_local (rs ! i) \<and> \<not> truthy (dict_get (rs ! i) ''tags'') \<longrightarrow>
            (\<exists>name content.
               (rs ! i) ''name'' = Some name \<and> about_get about_map name = Inr content \<and>
               (if clean_text content \<noteq> []
                then (rs' ! i) ''category'' =
                       Some (JStr (categorize_by_keywords (Some (clean_text content)))) \<and>
                     (rs' ! i) ''tags'' =
                       Some (JArr [JStr (strip (takeWhile (\<lambda>c. c \<noteq> CHR ''&'')
                                      (categorize_by_keywords (Some (clean_text content)))))])
                else (rs' ! i) ''tags'' = (rs ! i) ''tags'')))"
proof -
  from local_run_nth [OF assms(1)] assms(2)
  have len: "length rs' = length rs"
    and step: "local_enrich_startup about_map (rs ! i) = Inr (rs' ! i)" by auto
  from local_enrich_startup_tags [OF step] len show ?thesis by blast
qed

theorem local_run_tags_witness:
  "\<exists>rs'. local_run [''Acme'' \<mapsto> Some ''We build hospital software for clinics.'']
            [[''name'' \<mapsto> JStr ''Acme'', ''category'' \<mapsto> JStr ''Error'',
              ''summary'' \<mapsto> JStr ''Acme makes software.'', ''confidence'' \<mapsto> JStr ''High''],
             [''name'' \<mapsto> JStr ''Beta'', ''category'' \<mapsto> JStr ''No Data'',
              ''summary'' \<mapsto> JStr ''Beta makes hardware.'', ''tags'' \<mapsto> JArr [JStr ''chips'']]]
          = Inr rs' \<and> length rs' = 2 \<and>
          (rs' ! 0) ''category'' = Some (JStr ''Healthcare & Biotech'') \<and>
          (rs' ! 0) ''tags'' = Some (JArr [JStr ''Healthcare'']) \<and>
          (rs' ! 1) ''tags'' = Some (JArr [JStr ''chips''])"
proof -
  let ?am = "[''Acme'' \<mapsto> Some ''We build hospital software for clinics.'']"
  let ?r0 = "[''name'' \<mapsto> JStr ''Acme'', ''category'' \<mapsto> JStr ''Error'',
              ''summary'' \<mapsto> JStr ''Acme makes software.'', ''confidence'' \<mapsto> JStr ''High'']"
  let ?r1 = "[''name'' \<mapsto> JStr ''Beta'', ''category'' \<mapsto> JStr ''No Data'',
              ''summary'' \<mapsto> JStr ''Beta makes hardware.'', ''tags'' \<mapsto> JArr [JStr ''chips'']]"
  obtain r0' where r0': "local_enrich_startup ?am ?r0 = Inr r0'"
    using local_enrich_startup_total [of ?r0 "''Acme''" ?am] by auto
  obtain r1' where r1': "local_enrich_startup ?am ?r1 = Inr r1'"
    using local_enrich_startup_total [of ?r1 "''Beta''" ?am] by auto
  have run: "local_run ?am [?r0, ?r1] = Inr [r0', r1']" using r0' r1' by simp
  have c0: "needs_category_local ?r0 \<and> \<not> truthy (dict_get ?r0 ''tags'')"
    by (simp add: needs_category_local_def dict_get_def)
  have t1: "truthy (dict_get ?r1 ''tags'')" by (simp add: dict_get_def)
  have a0: "about_get ?am (JStr ''Acme'') = Inr (Some ''We build hospital software for clinics.'')"
    by (simp add: about_get_def)
  have cl: "clean_text (Some ''We build hospital software for clinics.'') =
      ''We build hospital software for clinics.''" by code_simp
  have cat: "categorize_by_keywords (Some ''We build hospital software for clinics.'') =
      ''Healthcare & Biotech''" by code_simp
  have tag: "strip (takeWhile (\<lambda>c. c \<noteq> CHR ''&'') ''Healthcare & Biotech'') = ''Healthcare''"
    by code_simp
  have tag': "strip ''Healthcare '' = ''Healthcare''" by code_simp
  from local_run_tags [OF run, of 0] c0
  have f0: "([r0', r1'] ! 0) ''category'' = Some (JStr ''Healthcare & Biotech'') \<and>
            ([r0', r1'] ! 0) ''tags'' = Some (JArr [JStr ''Healthcare''])"
    by (auto simp: a0 cl cat tag tag')
  from local_run_tags [OF run, of 1] t1
  have f1: "([r0', r1'] ! 1) ''tags'' = Some (JArr [JStr ''chips''])" by simp
  from run f0 f1 show ?thesis by simp
qed

text \<open>
  C8. The category written by the local stage is said to lie in the taxonomy or among the
  sentinels No Data, Error, Unknown, Other. A record that needs a category and has no
  about text receives \<open>Uncategorized\<close>, which is neither.
\<close>

theorem local_run_writes_Uncategorized:
  "saved_field
     (local_run Map.empty
        [[''name'' \<mapsto> JStr ''Acme'', ''category'' \<mapsto> JStr ''Error'',
          ''summary'' \<mapsto> JStr ''Acme makes software.'']])
     ''category'' = [Some (JStr ''Uncategorized'')] \<and>
   \<not> taxonomy_or_sentinel ''Uncategorized''"
  by code_simp

text \<open>
  C8, as the code has it. For a record that needs a category, \<open>LocalEnricher.run\<close>
  writes the result of \<open>categorize_by_keywords\<close>, a label of the taxonomy, when the
  cleaned about text is not empty, and \<open>Uncategorized\<close> when it is empty; the category of
  any other record is left as it was.
\<close>

theorem local_run_category_values:
  assumes "local_run about_map rs = Inr rs'" and "i < length rs"
  shows "(\<not> needs_category_local (rs ! i) \<longrightarrow> (rs' ! i) ''category'' = (rs ! i) ''category'') \<and>
         (needs_category_local (rs ! i) \<longrightarrow>
            (\<exists>name content c.
               (rs ! i) ''name'' = Some name \<and> about_get about_map name = Inr content \<and>
               (rs' ! i) ''category'' = Some (JStr c) \<and>
               (if clean_text content \<noteq> []
                then c = categorize_by_keywords (Some (clean_text content)) \<and> c \<in> set categories \<and>
                     taxonomy_or_sentinel c
                else c = ''Uncategorized'')))"
proof -
  from local_run_nth [OF assms(1)] assms(2)
  have step: "local_enrich_startup about_map (rs ! i) = Inr (rs' ! i)" by auto
  note cat = local_enrich_startup_category [OF step]
  have keep: "\<not> needs_category_local (rs ! i) \<longrightarrow> (rs' ! i) ''category'' = (rs ! i) ''category''"
    using cat by (rule conjunct1)
  have fill: "needs_category_local (rs ! i) \<longrightarrow>
            (\<exists>name content c.
               (rs ! i) ''name'' = Some name \<and> about_get about_map name = Inr content \<and>
               (rs' ! i) ''category'' = Some (JStr c) \<and>
               (if clean_text content \<noteq> []
                then c = categorize_by_keywords (Some (clean_text content)) \<and> c \<in> set categories \<and>
                     taxonomy_or_sentinel c
                else c = ''Uncategorized''))"
  proof
    assume "needs_category_local (rs ! i)"
    with cat obtain name content where
      nc: "(rs ! i) ''name'' = Some name" "about_get about_map name = Inr content"
      and v: "if clean_text content \<noteq> []
              then (rs' ! i) ''category'' =
                     Some (JStr (categorize_by_keywords (Some (clean_text content))))
              else (rs' ! i) ''category'' = Some (JStr ''Uncategorized'')"
      by blast
    show "\<exists>name content c.
               (rs ! i) ''name'' = Some name \<and> about_get about_map name = Inr content \<and>
               (rs' ! i) ''category'' = Some (JStr c) \<and>
               (if clean_text content \<noteq> []
                then c = categorize_by_keywords (Some (clean_text content)) \<and> c \<in> set categories \<and>
                     taxonomy_or_sentinel c
                else c = ''Uncategorized'')"
    proof (cases "clean_text content = []")
      case True
      then have "(rs' ! i) ''category'' = Some (JStr ''Uncategorized'')" using v by simp
      with nc True show ?thesis by auto
    next
      case False
      let ?c = "categorize_by_keywords (Some (clean_text content))"
      have "(rs' ! i) ''category'' = Some (JStr ?c)" using v False by simp
      moreover have "?c \<in> set categories" by (rule categorize_by_keywords_in_taxonomy)
      moreover then have "taxonomy_or_sentinel ?c" by (simp add: taxonomy_or_sentinel_def)
      ultimately show ?thesis using nc False by auto
    qed
  qed
  from keep fill show ?thesis by (rule conjI)
qed

lemma enhance_startup_total:
  "s ''name'' = Some (JStr n) \<Longrightarrow> \<exists>s'. enhance_startup env s = Inr s'"
  by (auto simp: enhance_startup_def enhance_summary_def about_get_def
      split: option.splits sum.splits)

lemma result_field_Inr: "out = Inr r \<Longrightarrow> result_field out f = r f"
  by (simp add: result_field_def)

theorem local_run_category_values_witness:
  "\<exists>rs'. local_run [''Gamma'' \<mapsto> Some ''Our bank offers loans and credit.'']
            [[''name'' \<mapsto> JStr ''Gamma'', ''category'' \<mapsto> JStr ''No Data'',
              ''summary'' \<mapsto> JStr ''Gamma lends money.''],
             [''name'' \<mapsto> JStr ''Delta'', ''category'' \<mapsto> JStr ''Error'',
              ''summary'' \<mapsto> JStr ''Delta sells toys.''],
             [''name'' \<mapsto> JStr ''Eps'', ''category'' \<mapsto> JStr ''Cybersecurity'',
              ''summary'' \<mapsto> JStr ''Eps guards networks.'']]
          = Inr rs' \<and>
          (rs' ! 0) ''category'' = Some (JStr ''Fintech & Banking'') \<and>
          ''Fintech & Banking'' \<in> set categories \<and>
          (rs' ! 1) ''category'' = Some (JStr ''Uncategorized'') \<and>
          (rs' ! 2) ''category'' = Some (JStr ''Cybersecurity'')"
proof -
  let ?am = "[''Gamma'' \<mapsto> Some ''Our bank offers loans and credit.'']"
  let ?r0 = "[''name'' \<mapsto> JStr ''Gamma'', ''category'' \<mapsto> JStr ''No Data'',
              ''summary'' \<mapsto> JStr ''Gamma lends money.'']"
  let ?r1 = "[''name'' \<mapsto> JStr ''Delta'', ''category'' \<mapsto> JStr ''Error'',
              ''summary'' \<mapsto> JStr ''Delta sells toys.'']"
  let ?r2 = "[''name'' \<mapsto> JStr ''Eps'', ''category'' \<mapsto> JStr ''Cybersecurity'',
              ''summary'' \<mapsto> JStr ''Eps guards networks.'']"
  obtain r0' where r0': "local_enrich_startup ?am ?r0 = Inr r0'"
    using local_enrich_startup_total [of ?r0 "''Gamma''" ?am] by auto
  obtain r1' where r1': "local_enrich_startup ?am ?r1 = Inr r1'"
    using local_enrich_startup_total [of ?r1 "''Delta''" ?am] by auto
  obtain r2' where r2': "local_enrich_startup ?am ?r2 = Inr r2'"
    using local_enrich_startup_total [of ?r2 "''Eps''" ?am] by auto
  have run: "local_run ?am [?r0, ?r1, ?r2] = Inr [r0', r1', r2']" using r0' r1' r2' by simp
  have n0: "needs_category_local ?r0" by (simp add: needs_category_local_def dict_get_def)
  have n1: "needs_category_local ?r1" by (simp add: needs_category_local_def dict_get_def)
  have n2: "\<not> needs_category_local ?r2" by (simp add: needs_category_local_def dict_get_def)
  have a0: "about_get ?am (JStr ''Gamma'') = Inr (Some ''Our bank offers loans and credit.'')"
    by (simp add: about_get_def)
  have a1: "about_get ?am (JStr ''Delta'') = Inr (Some [])"
    by (simp add: about_get_def)
  have cl0: "clean_text (Some ''Our bank offers loans and credit.'') =
      ''Our bank offers loans and credit.''" by code_simp
  have cl1: "clean_text (Some []) = []" by code_simp
  have cat: "categorize_by_keywords (Some ''Our bank offers loans and credit.'') =
      ''Fintech & Banking''" by code_simp
  from local_run_category_values [OF run, of 0] n0
  have f0: "([r0', r1', r2'] ! 0) ''category'' = Some (JStr ''Fintech & Banking'') \<and>
            ''Fintech & Banking'' \<in> set categories"
    by (auto simp: a0 cl0 cat)
  from local_run_category_values [OF run, of 1] n1
  have f1: "([r0', r1', r2'] ! 1) ''category'' = Some (JStr ''Uncategorized'')"
    by (auto simp: a1 cl1)
  from local_run_category_values [OF run, of 2] n2
  have f2: "([r0', r1', r2'] ! 2) ''category'' = Some (JStr ''Cybersecurity'')" by simp
  from run f0 f1 f2 show ?thesis by simp
qed

text \<open>
  C9. Confidence is said to be updated whenever a stage changes a record's summary or
  category. \<open>LocalEnricher.run\<close> on a record that needs only a category replaces
  \<open>Error\<close> by a keyword category and leaves the confidence \<open>High\<close> as it was.
\<close>

theorem local_run_category_only_keeps_confidence:
  "saved_field
     (local_run [''Acme'' \<mapsto> Some ''We build hospital software for clinics.'']
        [[''name'' \<mapsto> JStr ''Acme'', ''category'' \<mapsto> JStr ''Error'',
          ''summary'' \<mapsto> JStr ''Acme makes software.'', ''confidence'' \<mapsto> JStr ''High'']])
     ''category'' = [Some (JStr ''Healthcare & Biotech'')] \<and>
   saved_field
     (local_run [''Acme'' \<mapsto> Some ''We build hospital software for clinics.'']
        [[''name'' \<mapsto> JStr ''Acme'', ''category'' \<mapsto> JStr ''Error'',
          ''summary'' \<mapsto> JStr ''Acme makes software.'', ''confidence'' \<mapsto> JStr ''High'']])
     ''confidence'' = [Some (JStr ''High'')]"
  by code_simp

text \<open>
  C9, as the code has it. \<open>enhance_startup\<close> either leaves summary and confidence as they
  were or writes a non-empty summary together with confidence \<open>Medium\<close>.
  \<open>LocalEnricher.run\<close> either writes an extracted summary together with confidence
  \<open>Low (Extracted)\<close>, or leaves confidence as it was; in the latter case the summary is
  unchanged or is the placeholder \<open>Information not available.\<close>, and a category may have
  been written all the same.
\<close>

theorem confidence_follows_summary:
  "(enhance_startup env s = Inr s' \<longrightarrow>
      (s' ''summary'' = s ''summary'' \<and> s' ''confidence'' = s ''confidence'') \<or>
      (needs_summary s \<and> (\<exists>t. t \<noteq> [] \<and> s' ''summary'' = Some (JStr t)) \<and>
       s' ''confidence'' = Some (JStr ''Medium''))) \<and>
   (local_run about_map rs = Inr rs' \<and> i < length rs \<longrightarrow>
      (\<exists>name content e.
         (rs ! i) ''name'' = Some name \<and> about_get about_map name = Inr content \<and>
         needs_summary_local (rs ! i) \<and> extract_summary (Some (clean_text content)) = Some e \<and>
         (rs' ! i) ''summary'' = Some (JStr e) \<and>
         (rs' ! i) ''confidence'' = Some (JStr ''Low (Extracted)'')) \<or>
      ((rs' ! i) ''confidence'' = (rs ! i) ''confidence'' \<and>
       ((rs' ! i) ''summary'' = (rs ! i) ''summary'' \<or>
        needs_summary_local (rs ! i) \<and>
        (rs' ! i) ''summary'' = Some (JStr ''Information not available.''))))"
proof -
  have a: "enhance_startup env s = Inr s' \<longrightarrow>
      (s' ''summary'' = s ''summary'' \<and> s' ''confidence'' = s ''confidence'') \<or>
      (needs_summary s \<and> (\<exists>t. t \<noteq> [] \<and> s' ''summary'' = Some (JStr t)) \<and>
       s' ''confidence'' = Some (JStr ''Medium''))"
    using enhance_startup_confidence [of env s s'] by blast
  have b: "local_run about_map rs = Inr rs' \<and> i < length rs \<longrightarrow>
      (\<exists>name content e.
         (rs ! i) ''name'' = Some name \<and> about_get about_map name = Inr content \<and>
         needs_summary_local (rs ! i) \<and> extract_summary (Some (clean_text content)) = Some e \<and>
         (rs' ! i) ''summary'' = Some (JStr e) \<and>
         (rs' ! i) ''confidence'' = Some (JStr ''Low (Extracted)'')) \<or>
      ((rs' ! i) ''confidence'' = (rs ! i) ''confidence'' \<and>
       ((rs' ! i) ''summary'' = (rs ! i) ''summary'' \<or>
        needs_summary_local (rs ! i) \<and>
        (rs' ! i) ''summary'' = Some (JStr ''Information not available.'')))"
  proof
    assume h: "local_run about_map rs = Inr rs' \<and> i < length rs"
    with local_run_nth [of about_map rs rs']
    have "local_enrich_startup about_map (rs ! i) = Inr (rs' ! i)" by auto
    from local_enrich_startup_summary [OF this]
    show "(\<exists>name content e.
         (rs ! i) ''name'' = Some name \<and> about_get about_map name = Inr content \<and>
         needs_summary_local (rs ! i) \<and> extract_summary (Some (clean_text content)) = Some e \<and>
         (rs' ! i) ''summary'' = Some (JStr e) \<and>
         (rs' ! i) ''confidence'' = Some (JStr ''Low (Extracted)'')) \<or>
      ((rs' ! i) ''confidence'' = (rs ! i) ''confidence'' \<and>
       ((rs' ! i) ''summary'' = (rs ! i) ''summary'' \<or>
        needs_summary_local (rs ! i) \<and>
        (rs' ! i) ''summary'' = Some (JStr ''Information not available.'')))" .
  qed
  from a b show ?thesis by (rule conjI)
qed

theorem confidence_follows_summary_witness:
  "(\<exists>s'. enhance_startup
            \<lparr>ask_summary = (\<lambda>name content. Inr (Some ''  Acme builds tools.  '')),
             search_linkedin = (\<lambda>name website. None),
             about_content_map =
               [''Acme'' \<mapsto> Some ''Acme builds tools for factories and sells them to many firms abroad.'']\<rparr>
            [''name'' \<mapsto> JStr ''Acme'', ''category'' \<mapsto> JStr ''Error'',
             ''summary'' \<mapsto> JStr ''Failed to process with AI'', ''confidence'' \<mapsto> JStr ''Low'']
          = Inr s' \<and>
          s' ''summary'' = Some (JStr ''Acme builds tools.'') \<and>
          s' ''confidence'' = Some (JStr ''Medium'')) \<and>
   (\<exists>rs'. local_run [''Acme'' \<mapsto> Some ''We build hospital software for clinics.'']
             [[''name'' \<mapsto> JStr ''Acme'', ''category'' \<mapsto> JStr ''Healthcare & Biotech'',
               ''summary'' \<mapsto> JStr ''Failed to process with AI'', ''confidence'' \<mapsto> JStr ''Low'']]
           = Inr rs' \<and>
           (rs' ! 0) ''summary'' = Some (JStr ''We build hospital software for clinics.'') \<and>
           (rs' ! 0) ''confidence'' = Some (JStr ''Low (Extracted)''))"
proof -
  let ?env = "\<lparr>ask_summary = (\<lambda>name content. Inr (Some ''  Acme builds tools.  '')),
             search_linkedin = (\<lambda>name website. None),
             about_content_map =
               [''Acme'' \<mapsto> Some ''Acme builds tools for factories and sells them to many firms abroad.'']\<rparr>"
  let ?s = "[''name'' \<mapsto> JStr ''Acme'', ''category'' \<mapsto> JStr ''Error'',
             ''summary'' \<mapsto> JStr ''Failed to process with AI'', ''confidence'' \<mapsto> JStr ''Low'']"
  let ?am = "[''Acme'' \<mapsto> Some ''We build hospital software for clinics.'']"
  let ?r = "[''name'' \<mapsto> JStr ''Acme'', ''category'' \<mapsto> JStr ''Healthcare & Biotech'',
               ''summary'' \<mapsto> JStr ''Failed to process with AI'', ''confidence'' \<mapsto> JStr ''Low'']"
  obtain s' where s': "enhance_startup ?env ?s = Inr s'"
    using enhance_startup_total [of ?s "''Acme''" ?env] by auto
  have "result_field (enhance_startup ?env ?s) ''summary'' = Some (JStr ''Acme builds tools.'')"
    by code_simp
  then have sum: "s' ''summary'' = Some (JStr ''Acme builds tools.'')"
    using s' by (simp add: result_field_def)
  have "s' ''summary'' \<noteq> ?s ''summary''" unfolding sum by simp
  with confidence_follows_summary [of ?env ?s s'] s'
  have conf: "s' ''confidence'' = Some (JStr ''Medium'')" by blast
  obtain r' where r': "local_enrich_startup ?am ?r = Inr r'"
    using local_enrich_startup_total [of ?r "''Acme''" ?am] by auto
  have run: "local_run ?am [?r] = Inr [r']" using r' by simp
  have "saved_field (local_run ?am [?r]) ''summary'' =
      [Some (JStr ''We build hospital software for clinics.'')]" by code_simp
  then have rsum: "r' ''summary'' = Some (JStr ''We build hospital software for clinics.'')"
    using run by (simp add: saved_field_def)
  have "r' ''summary'' \<noteq> ?r ''summary''" "r' ''summary'' \<noteq> Some (JStr ''Information not available.'')"
    unfolding rsum by simp_all
  with confidence_follows_summary [of _ _ _ ?am "[?r]" "[r']" 0] run
  have rconf: "r' ''confidence'' = Some (JStr ''Low (Extracted)'')" by auto
  from s' sum conf run rsum rconf show ?thesis by simp
qed

subsection \<open>Claims about what the later stages overwrite\<close>

lemma taxonomy_not_missing: "c \<in> set categories \<Longrightarrow> \<not> category_missing (JStr c)"
  by (auto simp: categories_def category_missing_def)

lemma local_enrich_startup_summary_value:
  assumes "local_enrich_startup about_map startup = Inr startup'"
    and "startup' ''summary'' \<noteq> startup ''summary''"
  shows "needs_summary_local startup \<and>
         (\<exists>name content.
            startup ''name'' = Some name \<and> about_get about_map name = Inr content \<and>
            startup' ''summary'' =
              Some (JStr (case extract_summary (Some (clean_text content)) of
                            Some e \<Rightarrow> e | None \<Rightarrow> ''Information not available.'')))"
  using local_enrich_startup_cases [OF assms(1)] assms(2)
  by (cases "needs_category_local startup"; cases "needs_summary_local startup")
     (auto simp: fill_category_apply fill_summary_apply split: if_splits)

lemma local_enrich_startup_confidence_value:
  assumes "local_enrich_startup about_map startup = Inr startup'"
    and "startup' ''confidence'' \<noteq> startup ''confidence''"
  shows "needs_summary_local startup \<and>
         startup' ''confidence'' = Some (JStr ''Low (Extracted)'') \<and>
         (\<exists>name content e.
            startup ''name'' = Some name \<and> about_get about_map name = Inr content \<and>
            extract_summary (Some (clean_text content)) = Some e \<and>
            startup' ''summary'' = Some (JStr e))"
  using local_enrich_startup_cases [OF assms(1)] assms(2)
  by (cases "needs_category_local startup"; cases "needs_summary_local startup")
     (auto simp: fill_category_apply fill_summary_apply split: if_splits)

lemma local_enrich_startup_category_value:
  assumes "local_enrich_startup about_map startup = Inr startup'"
    and "startup' ''category'' \<noteq> startup ''category''"
  shows "needs_category_local startup \<and>
         (\<exists>name content c.
            startup ''name'' = Some name \<and> about_get about_map name = Inr content \<and>
            c = (if clean_text content \<noteq> [] then categorize_by_keywords (Some (clean_text content))
                 else ''Uncategorized'') \<and>
            startup' ''category'' = Some (JStr c) \<and> \<not> category_missing (JStr c))"
proof -
  note c = local_enrich_startup_category [OF assms(1)]
  have n: "needs_category_local startup" using c assms(2) by blast
  with c obtain name content where
    nc: "startup ''name'' = Some name" "about_get about_map name = Inr content"
    and v: "if clean_text content \<noteq> []
            then startup' ''category'' =
                   Some (JStr (categorize_by_keywords (Some (clean_text content))))
            else startup' ''category'' = Some (JStr ''Uncategorized'')"
    by blast
  let ?c = "if clean_text content \<noteq> [] then categorize_by_keywords (Some (clean_text content))
            else ''Uncategorized''"
  have val: "startup' ''category'' = Some (JStr ?c)" using v by (simp split: if_splits)
  have "\<not> category_missing (JStr ?c)"
  proof (cases "clean_text content = []")
    case True
    then show ?thesis by (simp add: category_missing_def)
  next
    case False
    then show ?thesis
      using taxonomy_not_missing [OF categorize_by_keywords_in_taxonomy] by simp
  qed
  with n nc val show ?thesis by blast
qed

lemma local_enrich_startup_tags_value:
  assumes "local_enrich_startup about_map startup = Inr startup'"
    and "startup' ''tags'' \<noteq> startup ''tags''"
  shows "needs_category_local startup \<and> \<not> truthy (dict_get startup ''tags'') \<and>
         (\<exists>name content.
            startup ''name'' = Some name \<and> about_get about_map name = Inr content \<and>
            clean_text content \<noteq> [] \<and>
            startup' ''tags'' =
              Some (JArr [JStr (strip (takeWhile (\<lambda>c. c \<noteq> CHR ''&'')
                             (categorize_by_keywords (Some (clean_text content)))))]))"
proof -
  note t = local_enrich_startup_tags [OF assms(1)]
  have a: "\<not> truthy (dict_get startup ''tags'')" using t assms(2) by blast
  have b: "needs_category_local startup" using t assms(2) by blast
  from t a b obtain name content where
    nc: "startup ''name'' = Some name" "about_get about_map name = Inr content"
    and v: "if clean_text content \<noteq> []
            then startup' ''category'' =
                   Some (JStr (categorize_by_keywords (Some (clean_text content)))) \<and>
                 startup' ''tags'' =
                   Some (JArr [JStr (strip (takeWhile (\<lambda>c. c \<noteq> CHR ''&'')
                                  (categorize_by_keywords (Some (clean_text content)))))])
            else startup' ''tags'' = startup ''tags''"
    by blast
  have ne: "clean_text content \<noteq> []" using v assms(2) by (auto split: if_splits)
  with v have "startup' ''tags'' =
                   Some (JArr [JStr (strip (takeWhile (\<lambda>c. c \<noteq> CHR ''&'')
                                  (categorize_by_keywords (Some (clean_text content)))))])"
    by simp
  with a b nc ne show ?thesis by blast
qed

lemma enhance_summary_value:
  assumes "enhance_summary env name s = Inr mid"
  shows "mid = s \<or>
         (\<exists>content response_text.
            about_get (about_content_map env) name = Inr (Some content) \<and>
            ask_summary env name (take 1800 content) = Inr (Some response_text) \<and>
            strip response_text \<noteq> [] \<and>
            mid = s(''summary'' \<mapsto> JStr (strip response_text), ''confidence'' \<mapsto> JStr ''Medium''))"
  using assms
  by (auto simp: enhance_summary_def generate_summary_with_ai_def
      split: sum.splits if_splits option.splits)

lemma enhance_linkedin_value:
  "enhance_linkedin env name s mid =
     mid(''linkedin_url'' \<mapsto>
           (case search_linkedin env name (dict_get s ''website'') of
              Some url \<Rightarrow> if url \<noteq> [] then JStr url else JNull
            | None \<Rightarrow> JNull))"
  by (simp add: enhance_linkedin_def split: option.splits)

lemma enhance_startup_exact:
  assumes "enhance_startup env s = Inr s'"
  shows "\<exists>name mid.
           s ''name'' = Some name \<and>
           (mid = s \<or>
            needs_summary s \<and>
            (\<exists>content response_text.
               about_get (about_content_map env) name = Inr (Some content) \<and>
               ask_summary env name (take 1800 content) = Inr (Some response_text) \<and>
               strip response_text \<noteq> [] \<and>
               mid = s(''summary'' \<mapsto> JStr (strip response_text),
                       ''confidence'' \<mapsto> JStr ''Medium''))) \<and>
           (s' = mid \<or>
            \<not> truthy (dict_get s ''linkedin_url'') \<and>
            s' = mid(''linkedin_url'' \<mapsto>
                       (case search_linkedin env name (dict_get s ''website'') of
                          Some url \<Rightarrow> if url \<noteq> [] then JStr url else JNull
                        | None \<Rightarrow> JNull)))"
proof -
  from assms obtain name where name: "s ''name'' = Some name"
    by (auto simp: enhance_startup_def split: option.splits)
  define r where "r = (if needs_summary s then enhance_summary env name s else Inr s)"
  from assms name obtain mid where mid: "r = Inr mid"
    by (auto simp: enhance_startup_def r_def split: sum.splits)
  have m: "mid = s \<or>
            needs_summary s \<and>
            (\<exists>content response_text.
               about_get (about_content_map env) name = Inr (Some content) \<and>
               ask_summary env name (take 1800 content) = Inr (Some response_text) \<and>
               strip response_text \<noteq> [] \<and>
               mid = s(''summary'' \<mapsto> JStr (strip response_text),
                       ''confidence'' \<mapsto> JStr ''Medium''))"
  proof (cases "needs_summary s")
    case True
    then have "enhance_summary env name s = Inr mid" using mid by (simp add: r_def)
    from enhance_summary_value [OF this] True show ?thesis by blast
  next
    case False
    then show ?thesis using mid by (simp add: r_def)
  qed
  have l: "s' = mid \<or>
            \<not> truthy (dict_get s ''linkedin_url'') \<and>
            s' = mid(''linkedin_url'' \<mapsto>
                       (case search_linkedin env name (dict_get s ''website'') of
                          Some url \<Rightarrow> if url \<noteq> [] then JStr url else JNull
                        | None \<Rightarrow> JNull))"
  proof (cases "truthy (dict_get s ''linkedin_url'')")
    case True
    then show ?thesis using assms name mid by (simp add: enhance_startup_def r_def)
  next
    case False
    then have "s' = enhance_linkedin env name s mid"
      using assms name mid by (simp add: enhance_startup_def r_def)
    then show ?thesis using False by (simp add: enhance_linkedin_value)
  qed
  from name m l show ?thesis by blast
qed

lemma enhance_startup_summary_value:
  assumes "enhance_startup env s = Inr s'"
    and "s' ''summary'' \<noteq> s ''summary'' \<or> s' ''confidence'' \<noteq> s ''confidence''"
  shows "(category_missing (dict_get s ''category'') \<or> summary_missing (dict_get s ''summary'')) \<and>
         (\<exists>name content response_text.
            s ''name'' = Some name \<and>
            about_get (about_content_map env) name = Inr (Some content) \<and>
            ask_summary env name (take 1800 content) = Inr (Some response_text) \<and>
            strip response_text \<noteq> [] \<and>
            s' ''summary'' = Some (JStr (strip response_text)) \<and>
            s' ''confidence'' = Some (JStr ''Medium''))"
proof -
  from enhance_startup_exact [OF assms(1)] obtain name mid where
    name: "s ''name'' = Some name"
    and m: "mid = s \<or>
            needs_summary s \<and>
            (\<exists>content response_text.
               about_get (about_content_map env) name = Inr (Some content) \<and>
               ask_summary env name (take 1800 content) = Inr (Some response_text) \<and>
               strip response_text \<noteq> [] \<and>
               mid = s(''summary'' \<mapsto> JStr (strip response_text),
                       ''confidence'' \<mapsto> JStr ''Medium''))"
    and l: "s' = mid \<or> (\<exists>v. s' = mid(''linkedin_url'' \<mapsto> v))"
    by blast
  have same: "s' ''summary'' = mid ''summary''" "s' ''confidence'' = mid ''confidence''"
    using l by auto
  have "mid \<noteq> s" using assms(2) same by auto
  with m obtain content response_text where
    h: "needs_summary s" "about_get (about_content_map env) name = Inr (Some content)"
       "ask_summary env name (take 1800 content) = Inr (Some response_text)"
       "strip response_text \<noteq> []"
       "mid = s(''summary'' \<mapsto> JStr (strip response_text), ''confidence'' \<mapsto> JStr ''Medium'')"
    by blast
  have "s' ''summary'' = Some (JStr (strip response_text))" "s' ''confidence'' = Some (JStr ''Medium'')"
    using same h(5) by simp_all
  with name h(1-4) show ?thesis unfolding needs_summary_iff by blast
qed

lemma enhance_startup_linkedin_value:
  assumes "enhance_startup env s = Inr s'"
    and "s' ''linkedin_url'' \<noteq> s ''linkedin_url''"
  shows "linkedin_missing (dict_get s ''linkedin_url'') \<and>
         (\<exists>name. s ''name'' = Some name \<and>
            s' ''linkedin_url'' =
              Some (case search_linkedin env name (dict_get s ''website'') of
                      Some url \<Rightarrow> if url \<noteq> [] then JStr url else JNull
                    | None \<Rightarrow> JNull))"
proof -
  from enhance_startup_exact [OF assms(1)] obtain name mid where
    name: "s ''name'' = Some name"
    and m: "mid = s \<or> (\<exists>a b. mid = s(''summary'' \<mapsto> a, ''confidence'' \<mapsto> b))"
    and l: "s' = mid \<or>
            \<not> truthy (dict_get s ''linkedin_url'') \<and>
            s' = mid(''linkedin_url'' \<mapsto>
                       (case search_linkedin env name (dict_get s ''website'') of
                          Some url \<Rightarrow> if url \<noteq> [] then JStr url else JNull
                        | None \<Rightarrow> JNull))"
    by blast
  have "mid ''linkedin_url'' = s ''linkedin_url''" using m by auto
  then have "s' \<noteq> mid" using assms(2) by auto
  with l have "\<not> truthy (dict_get s ''linkedin_url'')"
    and "s' = mid(''linkedin_url'' \<mapsto>
                       (case search_linkedin env name (dict_get s ''website'') of
                          Some url \<Rightarrow> if url \<noteq> [] then JStr url else JNull
                        | None \<Rightarrow> JNull))" by auto
  then show ?thesis using name by (auto simp: linkedin_missing_def)
qed

text \<open>
  C2. A field whose value counts as present is said never to be overwritten, and a
  changed field to move from a missing value to a concrete one. \<open>enhance_startup\<close>
  decides to produce a summary from the category as well: on a record whose category is
  \<open>Error\<close> and whose summary is a real sentence, the summary is replaced by the generated
  one. Its \<open>linkedin_url\<close>, the empty string, becomes null when the search finds nothing:
  one missing value replaces another. \<open>LocalEnricher.run\<close> writes whatever
  \<open>extract_summary\<close> returns, here a text that is itself one of the missing values.
\<close>

theorem enhance_startup_overwrites_present_summary:
  "result_field
     (enhance_startup
        \<lparr>ask_summary = (\<lambda>name content. Inr (Some ''Acme builds tools.'')),
         search_linkedin = (\<lambda>name website. None),
         about_content_map =
           [''Acme'' \<mapsto> Some ''Acme builds tools for factories and sells them to many firms abroad.'']\<rparr>
        [''name'' \<mapsto> JStr ''Acme'', ''category'' \<mapsto> JStr ''Error'',
         ''summary'' \<mapsto> JStr ''Acme is a fine company.'', ''confidence'' \<mapsto> JStr ''High'',
         ''linkedin_url'' \<mapsto> JStr []])
     ''summary'' = Some (JStr ''Acme builds tools.'') \<and>
   \<not> summary_missing (JStr ''Acme is a fine company.'') \<and>
   result_field
     (enhance_startup
        \<lparr>ask_summary = (\<lambda>name content. Inr (Some ''Acme builds tools.'')),
         search_linkedin = (\<lambda>name website. None),
         about_content_map =
           [''Acme'' \<mapsto> Some ''Acme builds tools for factories and sells them to many firms abroad.'']\<rparr>
        [''name'' \<mapsto> JStr ''Acme'', ''category'' \<mapsto> JStr ''Error'',
         ''summary'' \<mapsto> JStr ''Acme is a fine company.'', ''confidence'' \<mapsto> JStr ''High'',
         ''linkedin_url'' \<mapsto> JStr []])
     ''linkedin_url'' = Some JNull \<and>
   linkedin_missing (JStr []) \<and> linkedin_missing JNull \<and>
   saved_field
     (local_run [''Acme'' \<mapsto> Some ''Failed to process with AI'']
        [[''name'' \<mapsto> JStr ''Acme'', ''category'' \<mapsto> JStr ''Cybersecurity'',
          ''summary'' \<mapsto> JStr ''No information available'']])
     ''summary'' = [Some (JStr ''Failed to process with AI'')] \<and>
   summary_missing (JStr ''No information available'') \<and>
   summary_missing (JStr ''Failed to process with AI'')"
  by code_simp

text \<open>
  C2, as the code has it. \<open>enhance_startup\<close> changes no field but summary, confidence and
  linkedin\_url. Summary or confidence change only when the category or the summary
  counts as missing; then the summary is the non-empty stripped text the service
  returned and the confidence is \<open>Medium\<close>. linkedin\_url changes only when its value is
  falsy, to the non-empty URL the search returned or else to null.
  \<open>LocalEnricher.run\<close> changes no field but summary, confidence, category and tags.
  The summary changes only when it is one of the stage's missing values, to the text
  \<open>extract_summary\<close> returns for the cleaned about text or else to
  \<open>Information not available.\<close>; the confidence changes only to \<open>Low (Extracted)\<close>,
  together with an extracted summary; the category changes only when it is \<open>Error\<close> or
  \<open>No Data\<close>, to the keyword category or \<open>Uncategorized\<close>, never to \<open>Error\<close> or
  \<open>No Data\<close> again; the tags change only when the category is filled from a non-empty
  text and the tags are falsy, to the one-element list of the category's head.
\<close>

theorem stages_change_only_flagged_fields:
  "(enhance_startup env s = Inr s' \<longrightarrow>
      (\<forall>f. f \<noteq> ''summary'' \<and> f \<noteq> ''confidence'' \<and> f \<noteq> ''linkedin_url'' \<longrightarrow> s' f = s f) \<and>
      (s' ''summary'' \<noteq> s ''summary'' \<or> s' ''confidence'' \<noteq> s ''confidence'' \<longrightarrow>
         (category_missing (dict_get s ''category'') \<or> summary_missing (dict_get s ''summary'')) \<and>
         (\<exists>name content response_text.
            s ''name'' = Some name \<and>
            about_get (about_content_map env) name = Inr (Some content) \<and>
            ask_summary env name (take 1800 content) = Inr (Some response_text) \<and>
            strip response_text \<noteq> [] \<and>
            s' ''summary'' = Some (JStr (strip response_text)) \<and>
            s' ''confidence'' = Some (JStr ''Medium''))) \<and>
      (s' ''linkedin_url'' \<noteq> s ''linkedin_url'' \<longrightarrow>
         linkedin_missing (dict_get s ''linkedin_url'') \<and>
         (\<exists>name. s ''name'' = Some name \<and>
            s' ''linkedin_url'' =
              Some (case search_linkedin env name (dict_get s ''website'') of
                      Some url \<Rightarrow> if url \<noteq> [] then JStr url else JNull
                    | None \<Rightarrow> JNull)))) \<and>
   (local_run about_map rs = Inr rs' \<and> i < length rs \<longrightarrow>
      (\<forall>f. f \<noteq> ''summary'' \<and> f \<noteq> ''confidence'' \<and> f \<noteq> ''category'' \<and> f \<noteq> ''tags'' \<longrightarrow>
         (rs' ! i) f = (rs ! i) f) \<and>
      ((rs' ! i) ''summary'' \<noteq> (rs ! i) ''summary'' \<longrightarrow>
         needs_summary_local (rs ! i) \<and>
         (\<exists>name content.
            (rs ! i) ''name'' = Some name \<and> about_get about_map name = Inr content \<and>
            (rs' ! i) ''summary'' =
              Some (JStr (case extract_summary (Some (clean_text content)) of
                            Some e \<Rightarrow> e | None \<Rightarrow> ''Information not available.'')))) \<and>
      ((rs' ! i) ''confidence'' \<noteq> (rs ! i) ''confidence'' \<longrightarrow>
         needs_summary_local (rs ! i) \<and>
         (rs' ! i) ''confidence'' = Some (JStr ''Low (Extracted)'') \<and>
         (\<exists>name content e.
            (rs ! i) ''name'' = Some name \<and> about_get about_map name = Inr content \<and>
            extract_summary (Some (clean_text content)) = Some e \<and>
            (rs' ! i) ''summary'' = Some (JStr e))) \<and>
      ((rs' ! i) ''category'' \<noteq> (rs ! i) ''category'' \<longrightarrow>
         needs_category_local (rs ! i) \<and>
         (\<exists>name content c.
            (rs ! i) ''name'' = Some name \<and> about_get about_map name = Inr content \<and>
            c = (if clean_text content \<noteq> [] then categorize_by_keywords (Some (clean_text content))
                 else ''Uncategorized'') \<and>
            (rs' ! i) ''category'' = Some (JStr c) \<and> \<not> category_missing (JStr c))) \<and>
      ((rs' ! i) ''tags'' \<noteq> (rs ! i) ''tags'' \<longrightarrow>
         needs_category_local (rs ! i) \<and> \<not> truthy (dict_get (rs ! i) ''tags'') \<and>
         (\<exists>name content.
            (rs ! i) ''name'' = Some name \<and> about_get about_map name = Inr content \<and>
            clean_text content \<noteq> [] \<and>
            (rs' ! i) ''tags'' =
              Some (JArr [JStr (strip (takeWhile (\<lambda>c. c \<noteq> CHR ''&'')
                             (categorize_by_keywords (Some (clean_text content)))))]))))"
proof (rule conjI; rule impI)
  assume h: "enhance_startup env s = Inr s'"
  have e1: "\<forall>f. f \<noteq> ''summary'' \<and> f \<noteq> ''confidence'' \<and> f \<noteq> ''linkedin_url'' \<longrightarrow> s' f = s f"
    using enhance_startup_frame [OF h] by (rule conjunct1)
  note e2 = enhance_startup_summary_value [OF h]
  note e3 = enhance_startup_linkedin_value [OF h]
  show "(\<forall>f. f \<noteq> ''summary'' \<and> f \<noteq> ''confidence'' \<and> f \<noteq> ''linkedin_url'' \<longrightarrow> s' f = s f) \<and>
      (s' ''summary'' \<noteq> s ''summary'' \<or> s' ''confidence'' \<noteq> s ''confidence'' \<longrightarrow>
         (category_missing (dict_get s ''category'') \<or> summary_missing (dict_get s ''summary'')) \<and>
         (\<exists>name content response_text.
            s ''name'' = Some name \<and>
            about_get (about_content_map env) name = Inr (Some content) \<and>
            ask_summary env name (take 1800 content) = Inr (Some response_text) \<and>
            strip response_text \<noteq> [] \<and>
            s' ''summary'' = Some (JStr (strip response_text)) \<and>
            s' ''confidence'' = Some (JStr ''Medium''))) \<and>
      (s' ''linkedin_url'' \<noteq> s ''linkedin_url'' \<longrightarrow>
         linkedin_missing (dict_get s ''linkedin_url'') \<and>
         (\<exists>name. s ''name'' = Some name \<and>
            s' ''linkedin_url'' =
              Some (case search_linkedin env name (dict_get s ''website'') of
                      Some url \<Rightarrow> if url \<noteq> [] then JStr url else JNull
                    | None \<Rightarrow> JNull)))"
    by (intro conjI impI e1 e2 e3)
next
  assume h: "local_run about_map rs = Inr rs' \<and> i < length rs"
  with local_run_nth [of about_map rs rs']
  have step: "local_enrich_startup about_map (rs ! i) = Inr (rs' ! i)" by auto
  have l1: "\<forall>f. f \<noteq> ''summary'' \<and> f \<noteq> ''confidence'' \<and> f \<noteq> ''category'' \<and> f \<noteq> ''tags'' \<longrightarrow>
         (rs' ! i) f = (rs ! i) f"
    using local_enrich_startup_frame [OF step] by (rule conjunct1)
  note l2 = local_enrich_startup_summary_value [OF step]
  note l3 = local_enrich_startup_confidence_value [OF step]
  note l4 = local_enrich_startup_category_value [OF step]
  note l5 = local_enrich_startup_tags_value [OF step]
  show "(\<forall>f. f \<noteq> ''summary'' \<and> f \<noteq> ''confidence'' \<and> f \<noteq> ''category'' \<and> f \<noteq> ''tags'' \<longrightarrow>
         (rs' ! i) f = (rs ! i) f) \<and>
      ((rs' ! i) ''summary'' \<noteq> (rs ! i) ''summary'' \<longrightarrow>
         needs_summary_local (rs ! i) \<and>
         (\<exists>name content.
            (rs ! i) ''name'' = Some name \<and> about_get about_map name = Inr content \<and>
            (rs' ! i) ''summary'' =
              Some (JStr (case extract_summary (Some (clean_text content)) of
                            Some e \<Rightarrow> e | None \<Rightarrow> ''Information not available.'')))) \<and>
      ((rs' ! i) ''confidence'' \<noteq> (rs ! i) ''confidence'' \<longrightarrow>
         needs_summary_local (rs ! i) \<and>
         (rs' ! i) ''confidence'' = Some (JStr ''Low (Extracted)'') \<and>
         (\<exists>name content e.
            (rs ! i) ''name'' = Some name \<and> about_get about_map name = Inr content \<and>
            extract_summary (Some (clean_text content)) = Some e \<and>
            (rs' ! i) ''summary'' = Some (JStr e))) \<and>
      ((rs' ! i) ''category'' \<noteq> (rs ! i) ''category'' \<longrightarrow>
         needs_category_local (rs ! i) \<and>
         (\<exists>name content c.
            (rs ! i) ''name'' = Some name \<and> about_get about_map name = Inr content \<and>
            c = (if clean_text content \<noteq> [] then categorize_by_keywords (Some (clean_text content))
                 else ''Uncategorized'') \<and>
            (rs' ! i) ''category'' = Some (JStr c) \<and> \<not> category_missing (JStr c))) \<and>
      ((rs' ! i) ''tags'' \<noteq> (rs ! i) ''tags'' \<longrightarrow>
         needs_category_local (rs ! i) \<and> \<not> truthy (dict_get (rs ! i) ''tags'') \<and>
         (\<exists>name content.
            (rs ! i) ''name'' = Some name \<and> about_get about_map name = Inr content \<and>
            clean_text content \<noteq> [] \<and>
            (rs' ! i) ''tags'' =
              Some (JArr [JStr (strip (takeWhile (\<lambda>c. c \<noteq> CHR ''&'')
                             (categorize_by_keywords (Some (clean_text content)))))])))"
    by (intro conjI impI l1 l2 l3 l4 l5)
qed

theorem stages_change_only_flagged_fields_witness:
  "(\<exists>s'. enhance_startup
            \<lparr>ask_summary = (\<lambda>name content. Inr (Some ''Beta sells maps.'')),
             search_linkedin = (\<lambda>name website. Some ''https://www.linkedin.com/company/beta''),
             about_content_map =
               [''Beta'' \<mapsto> Some ''Beta draws maps of cities and sells them to travellers and schools.'']\<rparr>
            [''name'' \<mapsto> JStr ''Beta'', ''hall'' \<mapsto> JStr ''5'', ''category'' \<mapsto> JStr ''No Data'',
             ''summary'' \<mapsto> JStr ''No information available'']
          = Inr s' \<and>
          s' ''name'' = Some (JStr ''Beta'') \<and> s' ''hall'' = Some (JStr ''5'') \<and>
          s' ''category'' = Some (JStr ''No Data'') \<and>
          s' ''summary'' = Some (JStr ''Beta sells maps.'') \<and>
          s' ''confidence'' = Some (JStr ''Medium'') \<and>
          s' ''linkedin_url'' = Some (JStr ''https://www.linkedin.com/company/beta'') \<and>
          linkedin_missing JNull) \<and>
   (\<exists>rs'. local_run [''Beta'' \<mapsto> Some ''Beta draws maps of cities and sells them.'']
             [[''name'' \<mapsto> JStr ''Beta'', ''hall'' \<mapsto> JStr ''5'', ''category'' \<mapsto> JStr ''Error'',
               ''summary'' \<mapsto> JStr ''Failed to process with AI'']]
           = Inr rs' \<and>
           (rs' ! 0) ''name'' = Some (JStr ''Beta'') \<and> (rs' ! 0) ''hall'' = Some (JStr ''5'') \<and>
           (rs' ! 0) ''summary'' = Some (JStr ''Beta draws maps of cities and sells them.'') \<and>
           (rs' ! 0) ''confidence'' = Some (JStr ''Low (Extracted)'') \<and>
           (rs' ! 0) ''category'' = Some (JStr ''E-commerce & Retail'') \<and>
           \<not> category_missing (JStr ''E-commerce & Retail'') \<and>
           (rs' ! 0) ''tags'' = Some (JArr [JStr ''E-commerce'']))"
proof -
  let ?env = "\<lparr>ask_summary = (\<lambda>name content. Inr (Some ''Beta sells maps.'')),
             search_linkedin = (\<lambda>name website. Some ''https://www.linkedin.com/company/beta''),
             about_content_map =
               [''Beta'' \<mapsto> Some ''Beta draws maps of cities and sells them to travellers and schools.'']\<rparr>"
  let ?s = "[''name'' \<mapsto> JStr ''Beta'', ''hall'' \<mapsto> JStr ''5'', ''category'' \<mapsto> JStr ''No Data'',
             ''summary'' \<mapsto> JStr ''No information available'']"
  let ?am = "[''Beta'' \<mapsto> Some ''Beta draws maps of cities and sells them.'']"
  let ?r = "[''name'' \<mapsto> JStr ''Beta'', ''hall'' \<mapsto> JStr ''5'', ''category'' \<mapsto> JStr ''Error'',
               ''summary'' \<mapsto> JStr ''Failed to process with AI'']"
  obtain s' where s': "enhance_startup ?env ?s = Inr s'"
    using enhance_startup_total [of ?s "''Beta''" ?env] by auto
  note e = stages_change_only_flagged_fields [of ?env ?s s', THEN conjunct1, rule_format, OF s']
  have keep: "s' ''name'' = Some (JStr ''Beta'')" "s' ''hall'' = Some (JStr ''5'')"
      "s' ''category'' = Some (JStr ''No Data'')"
    using e by simp_all
  have "result_field (enhance_startup ?env ?s) ''summary'' = Some (JStr ''Beta sells maps.'')"
    by code_simp
  then have sum: "s' ''summary'' = Some (JStr ''Beta sells maps.'')"
    using s' by (simp add: result_field_def)
  have "s' ''summary'' \<noteq> ?s ''summary''" unfolding sum by simp
  with e have conf: "s' ''confidence'' = Some (JStr ''Medium'')" by blast
  have "result_field (enhance_startup ?env ?s) ''linkedin_url'' =
      Some (JStr ''https://www.linkedin.com/company/beta'')"
    by code_simp
  then have li: "s' ''linkedin_url'' = Some (JStr ''https://www.linkedin.com/company/beta'')"
    using s' by (simp add: result_field_def)
  have "s' ''linkedin_url'' \<noteq> ?s ''linkedin_url''" unfolding li by simp
  with e have "linkedin_missing (dict_get ?s ''linkedin_url'')" by blast
  then have lm: "linkedin_missing JNull" by (simp add: dict_get_def)
  obtain r' where r': "local_enrich_startup ?am ?r = Inr r'"
    using local_enrich_startup_total [of ?r "''Beta''" ?am] by auto
  have run: "local_run ?am [?r] = Inr [r']" using r' by simp
  have run': "local_run ?am [?r] = Inr [r'] \<and> 0 < length [?r]" using run by simp
  note l = stages_change_only_flagged_fields [of _ _ _ ?am "[?r]" "[r']" 0, THEN conjunct2,
      rule_format, OF run', simplified nth_Cons_0]
  have rkeep: "r' ''name'' = Some (JStr ''Beta'')" "r' ''hall'' = Some (JStr ''5'')"
    using l by simp_all
  have "saved_field (local_run ?am [?r]) ''summary'' =
      [Some (JStr ''Beta draws maps of cities and sells them.'')]" by code_simp
  then have rsum: "r' ''summary'' = Some (JStr ''Beta draws maps of cities and sells them.'')"
    using run by (simp add: saved_field_def)
  have "saved_field (local_run ?am [?r]) ''confidence'' = [Some (JStr ''Low (Extracted)'')]"
    by code_simp
  then have rconf0: "r' ''confidence'' = Some (JStr ''Low (Extracted)'')"
    using run by (simp add: saved_field_def)
  have "r' ''confidence'' \<noteq> ?r ''confidence''" unfolding rconf0 by simp
  with l have rconf: "r' ''confidence'' = Some (JStr ''Low (Extracted)'')" by blast
  have "saved_field (local_run ?am [?r]) ''category'' = [Some (JStr ''E-commerce & Retail'')]"
    by code_simp
  then have rcat: "r' ''category'' = Some (JStr ''E-commerce & Retail'')"
    using run by (simp add: saved_field_def)
  have "r' ''category'' \<noteq> ?r ''category''" unfolding rcat by simp
  with l obtain c where "r' ''category'' = Some (JStr c)" "\<not> category_missing (JStr c)" by blast
  with rcat have ncm: "\<not> category_missing (JStr ''E-commerce & Retail'')" by simp
  have "saved_field (local_run ?am [?r]) ''tags'' = [Some (JArr [JStr ''E-commerce''])]"
    by code_simp
  then have rtags: "r' ''tags'' = Some (JArr [JStr ''E-commerce''])"
    using run by (simp add: saved_field_def)
  from s' keep sum conf li lm run rkeep rsum rconf rcat ncm rtags show ?thesis by simp
qed

section \<open>Properties of the stage runners\<close>

subsection \<open>The resumable loop\<close>

lemma already_True:
  "already key item res = Inr True \<Longrightarrow> \<exists>n. key item = Inr n \<and> Some n \<in> set (stored_names res)"
  by (induction res) (auto simp: stored_names_def split: option.splits sum.splits if_splits)


lemma already_wf:
  "None \<notin> set (stored_names res) \<Longrightarrow> key item = Inr n \<Longrightarrow>
     already key item res = Inr (Some n \<in> set (stored_names res))"
  by (induction res) (auto simp: stored_names_def split: option.splits)


text \<open>The items a run has to process: those whose key is not yet a stored name.\<close>

lemma resume_loop_exact:
  assumes "\<forall>i\<in>set items. key i = Inr (name i)"
    and "distinct (map name items)"
    and "None \<notin> set (stored_names res)"
    and "\<forall>i\<in>set items. \<forall>r. process i = Inr r \<longrightarrow> r ''name'' = Some (name i)"
    and "raised (resume_loop key process items res cs) = None"
  shows "calls (resume_loop key process items res cs) =
           cs @ filter (\<lambda>i. Some (name i) \<notin> set (stored_names res)) items \<and>
         map Inr (drop (length res) (results (resume_loop key process items res cs))) =
           map process (filter (\<lambda>i. Some (name i) \<notin> set (stored_names res)) items) \<and>
         take (length res) (results (resume_loop key process items res cs)) = res"
  using assms
proof (induction items arbitrary: res cs)
  case Nil
  then show ?case by simp
next
  case (Cons item items)
  have k: "key item = Inr (name item)" using Cons.prems(1) by simp
  have al: "already key item res = Inr (Some (name item) \<in> set (stored_names res))"
    using already_wf [where key=key and item=item, OF Cons.prems(3) k] .
  have p1: "\<forall>i\<in>set items. key i = Inr (name i)" using Cons.prems(1) by simp
  have p2: "distinct (map name items)" using Cons.prems(2) by simp
  have p4: "\<forall>i\<in>set items. \<forall>r. process i = Inr r \<longrightarrow> r ''name'' = Some (name i)"
    using Cons.prems(4) by simp
  show ?case
  proof (cases "Some (name item) \<in> set (stored_names res)")
    case True
    then have e: "resume_loop key process (item # items) res cs = resume_loop key process items res cs"
      using al by simp
    from Cons.IH [OF p1 p2 Cons.prems(3) p4] Cons.prems(5) [unfolded e]
    show ?thesis unfolding e using True by simp
  next
    case False
    show ?thesis
    proof (cases "process item")
      case (Inl err)
      then have "raised (resume_loop key process (item # items) res cs) = Some err"
        using al False by simp
      then show ?thesis using Cons.prems(5) by simp
    next
      case (Inr result)
      then have e: "resume_loop key process (item # items) res cs =
          resume_loop key process items (res @ [result]) (cs @ [item])"
        using al False by simp
      have rn: "result ''name'' = Some (name item)" using Cons.prems(4) Inr by simp
      have p3: "None \<notin> set (stored_names (res @ [result]))"
        using Cons.prems(3) rn by (simp add: stored_names_def)
      have "name item \<notin> name ` set items" using Cons.prems(2) by simp
      then have notin: "\<forall>i\<in>set items. name i \<noteq> name item"
        by (metis imageI)
      have f: "filter (\<lambda>i. Some (name i) \<notin> set (stored_names (res @ [result]))) items =
               filter (\<lambda>i. Some (name i) \<notin> set (stored_names res)) items"
        using notin rn by (intro filter_cong) (auto simp: stored_names_def)
      from Cons.IH [OF p1 p2 p3 p4] Cons.prems(5) [unfolded e]
      have ih: "calls (resume_loop key process items (res @ [result]) (cs @ [item])) =
           (cs @ [item]) @ filter (\<lambda>i. Some (name i) \<notin> set (stored_names res)) items"
         "map Inr (drop (length (res @ [result])) (results (resume_loop key process items (res @ [result]) (cs @ [item])))) =
           map process (filter (\<lambda>i. Some (name i) \<notin> set (stored_names res)) items)"
         "take (length (res @ [result])) (results (resume_loop key process items (res @ [result]) (cs @ [item]))) = res @ [result]"
        unfolding f by auto
      define out where "out = results (resume_loop key process items (res @ [result]) (cs @ [item]))"
      have t: "take (Suc (length res)) out = res @ [result]" using ih(3) by (simp add: out_def)
      have len: "length res < length out"
      proof (rule ccontr)
        assume "\<not> length res < length out"
        then have "length (take (Suc (length res)) out) \<le> length res" by simp
        then show False unfolding t by simp
      qed
      have t1: "take (length res) out = res"
      proof -
        have "take (length res) out = take (length res) (take (Suc (length res)) out)" by simp
        also have "\<dots> = res" unfolding t by simp
        finally show ?thesis .
      qed
      have nth: "out ! length res = result"
      proof -
        have "out ! length res = take (Suc (length res)) out ! length res" by simp
        also have "\<dots> = result" unfolding t by simp
        finally show ?thesis .
      qed
      have d: "drop (length res) out = result # drop (Suc (length res)) out"
        using len nth by (metis Cons_nth_drop_Suc)
      show ?thesis unfolding e using ih(1,2) False Inr t1 d by (simp add: out_def [symmetric])
    qed
  qed
qed

lemma resume_loop_no_raise:
  assumes "\<forall>i\<in>set items. key i = Inr (name i)"
    and "None \<notin> set (stored_names res)"
    and "\<forall>i\<in>set items. \<exists>r. process i = Inr r \<and> r ''name'' = Some (name i)"
  shows "raised (resume_loop key process items res cs) = None"
  using assms
proof (induction items arbitrary: res cs)
  case Nil
  then show ?case by simp
next
  case (Cons item items)
  have k: "key item = Inr (name item)" using Cons.prems(1) by simp
  have al: "already key item res = Inr (Some (name item) \<in> set (stored_names res))"
    using already_wf [where key=key and item=item, OF Cons.prems(2) k] .
  have p1: "\<forall>i\<in>set items. key i = Inr (name i)" using Cons.prems(1) by simp
  have p3: "\<forall>i\<in>set items. \<exists>r. process i = Inr r \<and> r ''name'' = Some (name i)"
    using Cons.prems(3) by simp
  show ?case
  proof (cases "Some (name item) \<in> set (stored_names res)")
    case True
    then show ?thesis using al Cons.IH [OF p1 Cons.prems(2) p3] by simp
  next
    case False
    obtain r where r: "process item = Inr r" "r ''name'' = Some (name item)"
      using Cons.prems(3) by auto
    have "None \<notin> set (stored_names (res @ [r]))"
      using Cons.prems(2) r(2) by (simp add: stored_names_def)
    from Cons.IH [OF p1 this p3] show ?thesis using al False r(1) by simp
  qed
qed

lemma filter_after_prefix:
  assumes "distinct (map name items)" and "k \<le> length items"
  shows "filter (\<lambda>i. Some (name i) \<notin> set (map (\<lambda>i. Some (name i)) (take k items))) items = drop k items"
proof -
  have items: "items = take k items @ drop k items" by simp
  have d: "distinct (map name (take k items) @ map name (drop k items))"
    using assms(1) by (metis append_take_drop_id map_append)
  have a: "filter (\<lambda>i. Some (name i) \<notin> set (map (\<lambda>i. Some (name i)) (take k items))) (take k items) = []"
    by (auto simp: filter_empty_conv)
  have b: "filter (\<lambda>i. Some (name i) \<notin> set (map (\<lambda>i. Some (name i)) (take k items))) (drop k items) = drop k items"
    using d by (auto simp: filter_id_conv)
  have "filter (\<lambda>i. Some (name i) \<notin> set (map (\<lambda>i. Some (name i)) (take k items))) (take k items @ drop k items) = drop k items"
    unfolding filter_append a b by simp
  then show ?thesis by simp
qed

lemma limit_window_None: "limit_window xs None start_index = xs"
  by (simp add: limit_window_def)

lemma stored_names_prefix_length:
  "stored_names prior = map f (take k items) \<Longrightarrow> k \<le> length items \<Longrightarrow> length prior = k"
  by (metis length_map length_take min.absorb2 stored_names_def)

lemma map_Inr_eq: "map Inr xs = map Inr ys \<Longrightarrow> xs = ys"
  by (induction xs arbitrary: ys) auto

lemma take_drop_split:
  "take n xs = a \<Longrightarrow> drop n xs = b \<Longrightarrow> xs = a @ b"
  by (metis append_take_drop_id)

subsection \<open>The fetch stage\<close>

lemma fetcher_process_startup_name:
  "fetcher_process_startup web company_name ''name'' = Some (JStr company_name)"
  by (simp add: fetcher_process_startup_def Let_def split: option.splits)


lemma fetcher_run_resume:
  assumes "distinct startups" and "k \<le> length startups"
    and "stored_names prior = map (\<lambda>s. Some (JStr s)) (take k startups)"
  shows "fetcher_run web startups prior None start_index =
           \<lparr>raised = None,
            results = prior @ map (fetcher_process_startup web) (drop k startups),
            calls = drop k startups\<rparr>"
proof -
  let ?key = "\<lambda>startup. Inr (JStr startup) :: error + jval"
  let ?process = "\<lambda>startup. Inr (fetcher_process_startup web startup) :: error + startup"
  let ?out = "resume_loop ?key ?process startups prior []"
  have run: "fetcher_run web startups prior None start_index = ?out"
    by (simp add: fetcher_run_def limit_window_None)
  have a1: "\<forall>i\<in>set startups. ?key i = Inr (JStr i)" by simp
  have a2: "distinct (map JStr startups)" using assms(1) by (simp add: distinct_map inj_on_def)
  have a3: "None \<notin> set (stored_names prior)" unfolding assms(3) by auto
  have a4: "\<forall>i\<in>set startups. \<exists>r. ?process i = Inr r \<and> r ''name'' = Some (JStr i)"
    by (simp add: fetcher_process_startup_name)
  have a4': "\<forall>i\<in>set startups. \<forall>r. ?process i = Inr r \<longrightarrow> r ''name'' = Some (JStr i)"
    by (auto simp: fetcher_process_startup_name)
  have nr: "raised ?out = None"
    using resume_loop_no_raise [where key="?key" and name=JStr and process="?process", OF a1 a3 a4] .
  note ex = resume_loop_exact [where key="?key" and name=JStr and process="?process",
      OF a1 a2 a3 a4' nr]
  have f: "filter (\<lambda>i. Some (JStr i) \<notin> set (stored_names prior)) startups = drop k startups"
    unfolding assms(3) using filter_after_prefix [of JStr startups k] a2 assms(2) by simp
  have len: "length prior = k" using stored_names_prefix_length [OF assms(3) assms(2)] .
  have c: "calls ?out = drop k startups" using ex f by simp
  have "map Inr (drop k (results ?out)) = map ?process (drop k startups)"
    using ex f len by simp
  then have "map (Inr :: startup \<Rightarrow> error + startup) (drop k (results ?out)) =
             map Inr (map (fetcher_process_startup web) (drop k startups))"
    by simp
  then have d: "drop k (results ?out) = map (fetcher_process_startup web) (drop k startups)"
    by (rule map_Inr_eq)
  have t: "take k (results ?out) = prior" using ex len by simp
  have r: "results ?out = prior @ map (fetcher_process_startup web) (drop k startups)"
    using take_drop_split [OF t d] .
  have "?out = \<lparr>raised = raised ?out, results = results ?out, calls = calls ?out\<rparr>" by simp
  then show ?thesis unfolding run nr r c .
qed

subsection \<open>The categorize stage\<close>






subsection \<open>The enrich stage\<close>







subsection \<open>Claims about the stage runners\<close>




lemma fetcher_run_window:
  "fetcher_run web startups prior limit start_index =
     fetcher_run web (limit_window startups limit start_index) prior None 0"
  by (simp add: fetcher_run_def limit_window_None)

text \<open>
  C4. With the argument \<open>all\<close> (no limit) the starting offset is said to cut the work
  list. The slice is taken only \<open>if limit:\<close>, so without a limit the offset has no
  effect: the run from offset 1 over three fresh names processes all three, while the same
  offset with limit 2 skips the first. The usage text of each script announces
  \<open>all 50\<close> as "process all, starting from index 50".
\<close>

theorem run_all_ignores_start_index:
  "calls (fetcher_run web [''A'', ''B'', ''C''] [] None 1) = [''A'', ''B'', ''C''] \<and>
   calls (fetcher_run web [''A'', ''B'', ''C''] [] (Some 2) 1) = [''B'', ''C''] \<and>
   fetcher_run web startups prior None start_index = fetcher_run web startups prior None 0 \<and>
   categorizer_run service items prior None start_index = categorizer_run service items prior None 0 \<and>
   enricher_run service about_results halls prior None start_index =
     enricher_run service about_results halls prior None 0"
proof -
  have d3: "distinct [''A'', ''B'', ''C'']" by simp
  have p0: "stored_names [] = map (\<lambda>s. Some (JStr s)) (take 0 [''A'', ''B'', ''C''])"
    by (simp add: stored_names_def)
  have a: "calls (fetcher_run web [''A'', ''B'', ''C''] [] None 1) = [''A'', ''B'', ''C'']"
    using fetcher_run_resume [OF d3 _ p0, of web 1] by simp
  have w: "limit_window [''A'', ''B'', ''C''] (Some 2) 1 = [''B'', ''C'']"
    by (simp add: limit_window_def py_slice_def)
  have d2: "distinct [''B'', ''C'']" by simp
  have p2: "stored_names [] = map (\<lambda>s. Some (JStr s)) (take 0 [''B'', ''C''])"
    by (simp add: stored_names_def)
  have b: "calls (fetcher_run web [''A'', ''B'', ''C''] [] (Some 2) 1) = [''B'', ''C'']"
    unfolding fetcher_run_window [of web _ _ "Some 2"] w
    using fetcher_run_resume [OF d2 _ p2, of web 0] by simp
  have c: "fetcher_run web startups prior None start_index = fetcher_run web startups prior None 0"
    by (simp add: fetcher_run_def limit_window_None)
  have d: "categorizer_run service items prior None start_index =
      categorizer_run service items prior None 0"
    by (simp add: categorizer_run_def limit_window_None)
  have e: "enricher_run service about_results halls prior None start_index =
      enricher_run service about_results halls prior None 0"
    by (simp add: enricher_run_def limit_window_None Let_def split: sum.splits)
  from a b c d e show ?thesis by (intro conjI)
qed

text \<open>
  C3. \<open>enrich_with_ai\<close> returns the \<open>No Data\<close> record without a request to the service
  when the about text is absent or empty (falsy); it returns the \<open>Error\<close> record when
  the request raises, when the response has no text, and when the response does not
  parse as JSON; a response that parses is returned as parsed. The two sentinel records
  are the ones of the source and differ.
\<close>

theorem enrich_with_ai_sentinels:
  "(\<not> truthy about_content \<longrightarrow>
      enrich_with_ai service startup_name about_content = (no_data_result, 0)) \<and>
   (truthy about_content \<and>
    (ask service startup_name about_content = Inl msg \<or>
     ask service startup_name about_content = Inr None) \<longrightarrow>
      fst (enrich_with_ai service startup_name about_content) = error_result) \<and>
   (truthy about_content \<and>
    ask service startup_name about_content = Inr (Some response_text) \<and>
    json_loads service (enricher_strip_fence (strip response_text)) = Inl msg' \<longrightarrow>
      fst (enrich_with_ai service startup_name about_content) = error_result) \<and>
   (truthy about_content \<and>
    ask service startup_name about_content = Inr (Some response_text) \<and>
    json_loads service (enricher_strip_fence (strip response_text)) = Inr enrichment \<longrightarrow>
      fst (enrich_with_ai service startup_name about_content) = enrichment) \<and>
   no_data_result =
     JObj [(''category'', JStr ''No Data''),
           (''summary'', JStr ''No information available for this startup.''),
           (''key_offerings'', JArr []), (''confidence'', JStr ''Low''), (''tags'', JArr [])] \<and>
   error_result =
     JObj [(''category'', JStr ''Error''), (''summary'', JStr ''Failed to process with AI''),
           (''key_offerings'', JArr []), (''confidence'', JStr ''Low''), (''tags'', JArr [])] \<and>
   no_data_result \<noteq> error_result"
proof -
  have a: "\<not> truthy about_content \<longrightarrow>
      enrich_with_ai service startup_name about_content = (no_data_result, 0)"
    by (simp add: enrich_with_ai_def)
  have b: "truthy about_content \<and>
    (ask service startup_name about_content = Inl msg \<or>
     ask service startup_name about_content = Inr None) \<longrightarrow>
      fst (enrich_with_ai service startup_name about_content) = error_result"
    by (auto simp: enrich_with_ai_def)
  have c: "truthy about_content \<and>
    ask service startup_name about_content = Inr (Some response_text) \<and>
    json_loads service (enricher_strip_fence (strip response_text)) = Inl msg' \<longrightarrow>
      fst (enrich_with_ai service startup_name about_content) = error_result"
    by (simp add: enrich_with_ai_def)
  have d: "truthy about_content \<and>
    ask service startup_name about_content = Inr (Some response_text) \<and>
    json_loads service (enricher_strip_fence (strip response_text)) = Inr enrichment \<longrightarrow>
      fst (enrich_with_ai service startup_name about_content) = enrichment"
    by (simp add: enrich_with_ai_def)
  have e: "no_data_result =
     JObj [(''category'', JStr ''No Data''),
           (''summary'', JStr ''No information available for this startup.''),
           (''key_offerings'', JArr []), (''confidence'', JStr ''Low''), (''tags'', JArr [])]"
    by (simp add: no_data_result_def)
  have f: "error_result =
     JObj [(''category'', JStr ''Error''), (''summary'', JStr ''Failed to process with AI''),
           (''key_offerings'', JArr []), (''confidence'', JStr ''Low''), (''tags'', JArr [])]"
    by (simp add: error_result_def)
  have g: "no_data_result \<noteq> error_result"
    by (simp add: no_data_result_def error_result_def)
  from a b c d e f g show ?thesis by (intro conjI)
qed

theorem enrich_with_ai_sentinels_witness:
  "enrich_with_ai \<lparr>ask = (\<lambda>name content. Inl ''503 unavailable''),
                   json_loads = (\<lambda>text. Inl ''Expecting value'')\<rparr>
     (JStr ''Acme'') JNull = (no_data_result, 0) \<and>
   enrich_with_ai \<lparr>ask = (\<lambda>name content. Inl ''503 unavailable''),
                   json_loads = (\<lambda>text. Inl ''Expecting value'')\<rparr>
     (JStr ''Acme'') (JStr []) = (no_data_result, 0) \<and>
   fst (enrich_with_ai \<lparr>ask = (\<lambda>name content. Inl ''503 unavailable''),
                        json_loads = (\<lambda>text. Inl ''Expecting value'')\<rparr>
          (JStr ''Acme'') (JStr ''We build robots.'')) = error_result \<and>
   fst (enrich_with_ai \<lparr>ask = (\<lambda>name content. Inr (Some ''Sorry, no JSON today'')),
                        json_loads = (\<lambda>text. Inl ''Expecting value'')\<rparr>
          (JStr ''Acme'') (JStr ''We build robots.'')) = error_result \<and>
   fst (enrich_with_ai \<lparr>ask = (\<lambda>name content. Inr (Some ''{}'')),
                        json_loads = (\<lambda>text. Inr (JObj []))\<rparr>
          (JStr ''Acme'') (JStr ''We build robots.'')) = JObj []"
proof -
  let ?down = "\<lparr>ask = (\<lambda>name content. Inl ''503 unavailable''),
                json_loads = (\<lambda>text. Inl ''Expecting value'')\<rparr>"
  let ?prose = "\<lparr>ask = (\<lambda>name content. Inr (Some ''Sorry, no JSON today'')),
                 json_loads = (\<lambda>text. Inl ''Expecting value'')\<rparr>"
  let ?good = "\<lparr>ask = (\<lambda>name content. Inr (Some ''{}'')),
                json_loads = (\<lambda>text. Inr (JObj []))\<rparr>"
  have a: "enrich_with_ai ?down (JStr ''Acme'') JNull = (no_data_result, 0)"
    using enrich_with_ai_sentinels [of JNull ?down "JStr ''Acme''"] by simp
  have b: "enrich_with_ai ?down (JStr ''Acme'') (JStr []) = (no_data_result, 0)"
    using enrich_with_ai_sentinels [of "JStr []" ?down "JStr ''Acme''"] by simp
  have c: "fst (enrich_with_ai ?down (JStr ''Acme'') (JStr ''We build robots.'')) = error_result"
    using enrich_with_ai_sentinels [of "JStr ''We build robots.''" ?down "JStr ''Acme''" "''503 unavailable''"]
    by simp
  have d: "fst (enrich_with_ai ?prose (JStr ''Acme'') (JStr ''We build robots.'')) = error_result"
    using enrich_with_ai_sentinels [of "JStr ''We build robots.''" ?prose "JStr ''Acme''" _
        "''Sorry, no JSON today''" "''Expecting value''"]
    by simp
  have e: "fst (enrich_with_ai ?good (JStr ''Acme'') (JStr ''We build robots.'')) = JObj []"
    using enrich_with_ai_sentinels [of "JStr ''We build robots.''" ?good "JStr ''Acme''" _
        "''{}''" _ "JObj []"]
    by simp
  from a b c d e show ?thesis by (intro conjI)
qed

end
